theory Spec2Isabelle
  imports Complex_Main
begin

section \<open>The benchmark suite of research/src/suite.py\<close>

text \<open>
  The suite compares storage backends. Its producer thread emits rows into a shared
  queue at a fixed rate, its consumer thread drains the queue into a backend, and a
  fan-out runner measures reads on several copies of a backend handle in parallel.

  Time is a real number of seconds (the source has Python floats; rounding is not
  modelled). What another thread or the scheduler decides is an explicit parameter of
  the model: when the stop flag is raised, how long an iteration takes, by how much a
  sleep overshoots.
\<close>

subsection \<open>Rows and the shared queue\<close>

text \<open>
  A row is a tuple whose first two components are the film and the user identifier
  (\<^verbatim>\<open>film_id, user_id, *_ = next(initial_data)\<close>). A value on the queue is a row
  or \<^verbatim>\<open>None\<close>, the sentinel.
\<close>

type_synonym row = "string \<times> string \<times> string list"

type_synonym shared_queue = "row option list"

subsection \<open>The producer: \<^verbatim>\<open>TestSuite.produce\<close>\<close>

text \<open>
  The environment of one producer thread. \<open>finished_at\<close> is the time at which the
  orchestrating thread assigns \<^verbatim>\<open>stress_tests_finished = True\<close> (\<open>None\<close>: not while
  the producer runs); the producer reads the flag as set from that time on.
  \<open>latency i\<close> is the time that passes in iteration \<open>i\<close> between the flag check and
  the reading of \<^verbatim>\<open>time.time()\<close>, \<open>oversleep i\<close> the time by which the sleep of
  iteration \<open>i\<close> lasts longer than requested.
\<close>

record env =
  finished_at :: "real option"
  latency :: "nat \<Rightarrow> real"
  oversleep :: "nat \<Rightarrow> real"

text \<open>
  The state of a producer: the queue it shares, its local \<^verbatim>\<open>next_produce\<close>, the
  clock, and what it did: the argument of every \<^verbatim>\<open>time.sleep\<close>, the clock at every
  \<^verbatim>\<open>put_nowait\<close>, and every reading of \<^verbatim>\<open>time.time()\<close> inside the loop.
\<close>

record producer =
  shared :: shared_queue
  next_produce :: real
  clock :: real
  sleeps :: "real list"
  put_times :: "real list"
  now_reads :: "real list"

definition flag_set :: "env \<Rightarrow> real \<Rightarrow> bool" where
  "flag_set e t = (case finished_at e of None \<Rightarrow> False | Some T \<Rightarrow> T \<le> t)"

text \<open>
  One iteration of the loop body after the flag check (lines 232 to 236):
  \<^verbatim>\<open>put_nowait(row)\<close>, \<^verbatim>\<open>next_produce += period\<close>,
  \<^verbatim>\<open>sleep_time = next_produce - time.time()\<close> and
  \<^verbatim>\<open>time.sleep(sleep_time > 0 and sleep_time or 0)\<close>.
\<close>

definition emit :: "env \<Rightarrow> real \<Rightarrow> nat \<Rightarrow> row \<Rightarrow> producer \<Rightarrow> producer" where
  "emit e period i r s =
    (let np = next_produce s + period;
         now = clock s + latency e i;
         sleep_time = np - now;
         d = (if sleep_time > 0 then sleep_time else 0)
     in s\<lparr>shared := shared s @ [Some r],
          next_produce := np,
          clock := now + d + oversleep e i,
          sleeps := sleeps s @ [d],
          put_times := put_times s @ [clock s],
          now_reads := now_reads s @ [now]\<rparr>)"

text \<open>The \<^verbatim>\<open>for row in data\<close> loop with its \<^verbatim>\<open>break\<close>; \<open>i\<close> counts iterations.\<close>

fun produce_loop :: "env \<Rightarrow> real \<Rightarrow> nat \<Rightarrow> row list \<Rightarrow> producer \<Rightarrow> producer" where
  "produce_loop e period i [] s = s"
| "produce_loop e period i (r # rs) s =
    (if flag_set e (clock s) then s
     else produce_loop e period (Suc i) rs (emit e period i r s))"

text \<open>
  \<^verbatim>\<open>produce(self, data, period)\<close>, started at time \<open>t0\<close> on the queue \<open>q\<close>:
  \<^verbatim>\<open>next_produce = time.time()\<close>, the loop, then \<^verbatim>\<open>self.queue.put(None)\<close>.
\<close>

definition start :: "shared_queue \<Rightarrow> real \<Rightarrow> producer" where
  "start q t0 = \<lparr>shared = q, next_produce = t0, clock = t0,
                 sleeps = [], put_times = [], now_reads = []\<rparr>"

definition produce :: "env \<Rightarrow> real \<Rightarrow> row list \<Rightarrow> shared_queue \<Rightarrow> real \<Rightarrow> producer" where
  "produce e period data q t0 =
    (let s = produce_loop e period 0 data (start q t0)
     in s\<lparr>shared := shared s @ [None]\<rparr>)"

text \<open>The number of rows put on the queue at a time between \<open>a\<close> and \<open>b\<close>.\<close>

definition emitted_within :: "producer \<Rightarrow> real \<Rightarrow> real \<Rightarrow> nat" where
  "emitted_within s a b = length (filter (\<lambda>t. a \<le> t \<and> t \<le> b) (put_times s))"

text \<open>
  The invariant of the loop after \<open>i\<close> iterations. \<open>heads s\<close> are the times at which
  the loop was at its head: the times of the rows put so far, then the present time.
\<close>

definition heads :: "producer \<Rightarrow> real list" where
  "heads s = put_times s @ [clock s]"

definition sched :: "env \<Rightarrow> real \<Rightarrow> real \<Rightarrow> nat \<Rightarrow> producer \<Rightarrow> bool" where
  "sched e p t0 i s \<longleftrightarrow>
     length (put_times s) = i \<and> length (sleeps s) = i \<and> length (now_reads s) = i \<and>
     next_produce s = t0 + real i * p \<and>
     heads s ! 0 = t0 \<and>
     (\<forall>k<i. sleeps s ! k = max 0 (t0 + real (Suc k) * p - now_reads s ! k)) \<and>
     (\<forall>k<i. heads s ! Suc k = now_reads s ! k + sleeps s ! k + oversleep e k)"

subsection \<open>The consumer: \<^verbatim>\<open>TestSuite.iter_queue\<close> and \<^verbatim>\<open>TestSuite.consume\<close>\<close>

text \<open>
  \<open>iter_queue q\<close> runs the generator to its end on the values \<open>q\<close> that are, or will
  ever be, on the queue. It returns the rows it yields and what it leaves on the
  queue; \<open>None\<close> when \<^verbatim>\<open>self.queue.get()\<close> blocks for ever, the queue being exhausted
  before a sentinel was read.
\<close>

fun iter_queue :: "shared_queue \<Rightarrow> (row list \<times> shared_queue) option" where
  "iter_queue [] = None"
| "iter_queue (None # q) = Some ([], q)"
| "iter_queue (Some r # q) =
    (case iter_queue q of None \<Rightarrow> None | Some (rs, q') \<Rightarrow> Some (r # rs, q'))"

text \<open>
  \<^verbatim>\<open>consume\<close> hands the generator to the backend's bulk write, here any function
  \<open>insert_data\<close> of the rows on a backend state \<open>'b\<close>.
\<close>

definition consume ::
  "(row list \<Rightarrow> 'b \<Rightarrow> 'b) \<Rightarrow> 'b \<Rightarrow> shared_queue \<Rightarrow> ('b \<times> shared_queue) option" where
  "consume insert_data backend q =
    (case iter_queue q of
       None \<Rightarrow> None
     | Some (rs, q') \<Rightarrow> Some (insert_data rs backend, q'))"

subsection \<open>Backends, operations and the trace of what the suite does\<close>

text \<open>
  Modelled from the spec: the Backend Contract (\<^verbatim>\<open>client.base.DBClient\<close> is not among
  the sources). A handle is known by the display name of its backend and a serial
  number; \<^verbatim>\<open>copy()\<close> returns an independent handle to the same backend, here the
  handle with the next unused serial number.
\<close>

record client =
  dbms_name :: string
  handle_id :: nat

datatype op =
    Connect
  | PrepareDatabase
  | InsertData "row list"
  | RetrieveLastTimecode string string
  | RetrieveMostViewed

datatype thread = Producer "row list" real | Consumer client

text \<open>
  What the orchestrating thread and the fan-out workers do, in order: a copy of a handle
  (the handle copied and the new one), a call of a backend operation, a call measured by
  \<^verbatim>\<open>measure_time\<close> with its \<^verbatim>\<open>repeats\<close> argument (\<open>None\<close> when the call leaves it
  to the default), a thread pool of a given size, a task submitted with its handle, a
  thread started, a \<^verbatim>\<open>time.sleep\<close>.
\<close>

datatype event =
    Copy client client
  | Call client op
  | Measure client op "nat option"
  | Pool nat
  | Submit client
  | Spawn thread
  | Sleep real

record world =
  next_handle :: nat
  trace :: "event list"

datatype error = StopIteration | ZeroDivisionError | ValueError | BackendError string

definition log_event :: "event \<Rightarrow> world \<Rightarrow> world" where
  "log_event ev w = w\<lparr>trace := trace w @ [ev]\<rparr>"

definition client_copy :: "client \<Rightarrow> world \<Rightarrow> client \<times> world" where
  "client_copy c w =
    (let c' = c\<lparr>handle_id := next_handle w\<rparr>
     in (c', w\<lparr>next_handle := Suc (next_handle w), trace := trace w @ [Copy c c']\<rparr>))"

text \<open>
  Modelled from the spec: the Timing Utility (\<^verbatim>\<open>utils.measure_time\<close> is not among the
  sources). It runs an operation of a handle and returns the elapsed time, or the
  operation fails. The time or the failure is decided outside the suite: by \<open>timer\<close>,
  from all that happened before, the handle, the operation and the repeat count.
\<close>

type_synonym timer = "event list \<Rightarrow> client \<Rightarrow> op \<Rightarrow> nat option \<Rightarrow> error + real"

definition measure_time ::
  "timer \<Rightarrow> client \<Rightarrow> op \<Rightarrow> nat option \<Rightarrow> world \<Rightarrow> (error + real) \<times> world" where
  "measure_time timer c x repeats w = (timer (trace w) c x repeats, log_event (Measure c x repeats) w)"

subsection \<open>The suite object\<close>

record suite =
  clients :: "client list"
  queue :: shared_queue
  rows_count :: int
  wps :: int
  readers_count :: int
  stress_tests_finished :: bool

definition TestSuite_init :: "int \<Rightarrow> int \<Rightarrow> int \<Rightarrow> suite" where
  "TestSuite_init rc w rd =
    \<lparr>clients = [], queue = [], rows_count = rc, wps = w, readers_count = rd,
     stress_tests_finished = False\<rparr>"

definition register :: "client \<Rightarrow> suite \<Rightarrow> suite" where
  "register c s = s\<lparr>clients := clients s @ [c]\<rparr>"

record TestResult =
  res_dbms_name :: string
  insert_100k_rows :: real
  retrieve_last_timecode :: real
  retrieve_most_viewed :: real
  retrieve_last_timecode_under_load :: real
  retrieve_most_viewed_under_load :: real
  retrieve_last_timecode_in_parallel :: real
  retrieve_most_viewed_in_parallel :: real

subsection \<open>\<^verbatim>\<open>prepare_database\<close> and \<^verbatim>\<open>run_static_tests\<close>\<close>

definition prepare_database :: "client \<Rightarrow> row list \<Rightarrow> world \<Rightarrow> world" where
  "prepare_database c initial_data w =
    log_event (Sleep 1)
      (log_event (Call c (InsertData initial_data))
        (log_event (Call c PrepareDatabase)
          (log_event (Call c Connect) w)))"

text \<open>
  The workload generator \<^verbatim>\<open>data.test_data\<close> is not among the sources: it is the
  parameter \<open>test_data\<close>, from the requested count to the rows the generator yields.
\<close>

definition run_static_tests ::
  "timer \<Rightarrow> (int \<Rightarrow> row list) \<Rightarrow> client \<Rightarrow> string \<Rightarrow> string \<Rightarrow> world
     \<Rightarrow> (error + real \<times> real \<times> real) \<times> world" where
  "run_static_tests timer test_data c film_id user_id w =
    (let w1 = log_event (Call c Connect) w;
         data = test_data 100000;
         (r1, w2) = measure_time timer c (InsertData data) None w1
     in case r1 of
          Inl e \<Rightarrow> (Inl e, w2)
        | Inr t1 \<Rightarrow>
           (let w3 = log_event (Sleep 1) w2;
                (r2, w4) = measure_time timer c (RetrieveLastTimecode film_id user_id) (Some 100) w3
            in case r2 of
                 Inl e \<Rightarrow> (Inl e, w4)
               | Inr t2 \<Rightarrow>
                  (let (r3, w5) = measure_time timer c RetrieveMostViewed (Some 100) w4
                   in case r3 of
                        Inl e \<Rightarrow> (Inl e, w5)
                      | Inr t3 \<Rightarrow> (Inr (t1, t2, t3), w5))))"

subsection \<open>\<^verbatim>\<open>run_stress_tests\<close>\<close>

text \<open>
  The orchestrating thread's part of a stress test. The two threads it starts are not
  joined: they are recorded in the trace with their arguments, and what they do to the
  queue is \<open>produce\<close> and \<open>consume\<close> above. \<^verbatim>\<open>1 / self.wps\<close> raises for \<open>wps = 0\<close>,
  before anything else is done. A measurement that raises leaves the function before
  the flag is set.
\<close>

definition run_stress_tests ::
  "timer \<Rightarrow> (int \<Rightarrow> row list) \<Rightarrow> suite \<Rightarrow> client \<Rightarrow> string \<Rightarrow> string \<Rightarrow> world
     \<Rightarrow> (error + real \<times> real) \<times> suite \<times> world" where
  "run_stress_tests timer test_data s c film_id user_id w =
    (let max_producing_time = 10;
         data = test_data (max_producing_time * wps s)
     in if wps s = 0 then (Inl ZeroDivisionError, s, w)
        else
         (let period = 1 / real_of_int (wps s);
              (cc, w1) = client_copy c w;
              s1 = s\<lparr>stress_tests_finished := False\<rparr>;
              w2 = log_event (Spawn (Producer data period)) w1;
              w3 = log_event (Spawn (Consumer cc)) w2;
              w4 = log_event (Sleep 1) w3;
              w5 = log_event (Call c Connect) w4;
              (r1, w6) = measure_time timer c (RetrieveLastTimecode film_id user_id) (Some 100) w5
          in case r1 of
               Inl e \<Rightarrow> (Inl e, s1, w6)
             | Inr t1 \<Rightarrow>
                (let (r2, w7) = measure_time timer c RetrieveMostViewed (Some 100) w6
                 in case r2 of
                      Inl e \<Rightarrow> (Inl e, s1, w7)
                    | Inr t2 \<Rightarrow> (Inr (t1, t2), s1\<lparr>stress_tests_finished := True\<rparr>, w7))))"

text \<open>
  The two threads of a stress test, each run to its end on the suite's queue. The
  producer thread runs \<open>produce\<close> on \<^verbatim>\<open>self.queue\<close>; the consumer thread runs
  \<open>consume\<close> on it and leaves what it did not read.
\<close>

definition producer_thread :: "env \<Rightarrow> row list \<Rightarrow> real \<Rightarrow> real \<Rightarrow> suite \<Rightarrow> suite" where
  "producer_thread e data period t0 s = s\<lparr>queue := shared (produce e period data (queue s) t0)\<rparr>"

definition consumer_thread ::
  "(row list \<Rightarrow> 'b \<Rightarrow> 'b) \<Rightarrow> 'b \<Rightarrow> suite \<Rightarrow> ('b \<times> suite) option" where
  "consumer_thread insert_data backend s =
    (case consume insert_data backend (queue s) of
       None \<Rightarrow> None
     | Some (b, q') \<Rightarrow> Some (b, s\<lparr>queue := q'\<rparr>))"

subsection \<open>The fan-out: \<^verbatim>\<open>run_in_parallel\<close> and \<^verbatim>\<open>run_parallel_read_tests\<close>\<close>

text \<open>\<^verbatim>\<open>[client.copy() for _ in range(threads_count)]\<close>, for \<open>n\<close> the length of the range.\<close>

fun copies :: "client \<Rightarrow> nat \<Rightarrow> world \<Rightarrow> client list \<times> world" where
  "copies c 0 w = ([], w)"
| "copies c (Suc n) w =
    (let (c', w1) = client_copy c w;
         (cs, w2) = copies c n w1
     in (c' # cs, w2))"

text \<open>
  \<^verbatim>\<open>pool.map(client_method, clients)\<close> followed by the end of the \<^verbatim>\<open>with\<close> block,
  which waits for every worker: the function is submitted once for each handle and
  every call runs to its end, whether another one failed or not. The workers run in
  parallel; the trace has what they do in the order of submission.
\<close>

fun pool_map ::
  "(client \<Rightarrow> world \<Rightarrow> (error + real) \<times> world) \<Rightarrow> client list \<Rightarrow> world
     \<Rightarrow> (error + real) list \<times> world" where
  "pool_map f [] w = ([], w)"
| "pool_map f (c # cs) w =
    (let (r, w1) = f c (log_event (Submit c) w);
         (rs, w2) = pool_map f cs w1
     in (r # rs, w2))"

text \<open>
  \<^verbatim>\<open>list(results)\<close>: the results in the order of submission; the first call that
  raised raises again here.
\<close>

fun collect :: "(error + real) list \<Rightarrow> error + real list" where
  "collect [] = Inr []"
| "collect (Inl e # rs) = Inl e"
| "collect (Inr d # rs) = (case collect rs of Inl e \<Rightarrow> Inl e | Inr ds \<Rightarrow> Inr (d # ds))"

text \<open>
  \<^verbatim>\<open>ThreadPoolExecutor(threads_count)\<close> raises \<^verbatim>\<open>ValueError\<close> for a count that is not
  positive; the list of copies, empty then, has been built before.
\<close>

definition run_in_parallel ::
  "client \<Rightarrow> (client \<Rightarrow> world \<Rightarrow> (error + real) \<times> world) \<Rightarrow> int \<Rightarrow> world
     \<Rightarrow> (error + real list) \<times> world" where
  "run_in_parallel c client_method threads_count w =
    (let (cs, w1) = copies c (nat threads_count) w
     in if threads_count \<le> 0 then (Inl ValueError, w1)
        else
         (let (results, w2) = pool_map client_method cs (log_event (Pool (nat threads_count)) w1)
          in (collect results, w2)))"

definition measure_retrieve_last_timecode ::
  "timer \<Rightarrow> string \<Rightarrow> string \<Rightarrow> client \<Rightarrow> world \<Rightarrow> (error + real) \<times> world" where
  "measure_retrieve_last_timecode timer film_id user_id c w =
    measure_time timer c (RetrieveLastTimecode film_id user_id) (Some 100) (log_event (Call c Connect) w)"

definition measure_retrieve_most_viewed ::
  "timer \<Rightarrow> client \<Rightarrow> world \<Rightarrow> (error + real) \<times> world" where
  "measure_retrieve_most_viewed timer c w =
    measure_time timer c RetrieveMostViewed (Some 100) (log_event (Call c Connect) w)"

text \<open>
  \<^verbatim>\<open>sum(r1) / self.readers_count\<close> would raise for a count of zero; that count never
  gets here, \<open>run_in_parallel\<close> having raised for it.
\<close>

definition average :: "real list \<Rightarrow> int \<Rightarrow> error + real" where
  "average r n = (if n = 0 then Inl ZeroDivisionError else Inr (sum_list r / real_of_int n))"

definition run_parallel_read_tests ::
  "timer \<Rightarrow> suite \<Rightarrow> client \<Rightarrow> string \<Rightarrow> string \<Rightarrow> world
     \<Rightarrow> (error + real \<times> real) \<times> world" where
  "run_parallel_read_tests timer s c film_id user_id w =
    (let (o1, w1) = run_in_parallel c (measure_retrieve_last_timecode timer film_id user_id)
                      (readers_count s) w
     in case o1 of
          Inl e \<Rightarrow> (Inl e, w1)
        | Inr r1 \<Rightarrow>
           (case average r1 (readers_count s) of
              Inl e \<Rightarrow> (Inl e, w1)
            | Inr t1 \<Rightarrow>
               (let (o2, w2) = run_in_parallel c (measure_retrieve_most_viewed timer)
                                 (readers_count s) w1
                in case o2 of
                     Inl e \<Rightarrow> (Inl e, w2)
                   | Inr r2 \<Rightarrow>
                      (case average r2 (readers_count s) of
                         Inl e \<Rightarrow> (Inl e, w2)
                       | Inr t2 \<Rightarrow> (Inr (t1, t2), w2)))))"

subsection \<open>\<^verbatim>\<open>run\<close>\<close>

text \<open>
  One iteration of the loop over the registered handles. \<^verbatim>\<open>next(initial_data)\<close> on a
  generator that yields nothing raises \<^verbatim>\<open>StopIteration\<close>.
\<close>

definition run_client ::
  "timer \<Rightarrow> (int \<Rightarrow> row list) \<Rightarrow> suite \<Rightarrow> client \<Rightarrow> world
     \<Rightarrow> (error + TestResult) \<times> suite \<times> world" where
  "run_client timer test_data s c w =
    (case test_data (rows_count s) of
       [] \<Rightarrow> (Inl StopIteration, s, w)
     | first # initial_data \<Rightarrow>
        (let film_id = fst first;
             user_id = fst (snd first);
             w1 = prepare_database c initial_data w;
             (o1, w2) = run_static_tests timer test_data c film_id user_id w1
         in case o1 of
              Inl e \<Rightarrow> (Inl e, s, w2)
            | Inr (t1, t2, t3) \<Rightarrow>
               (let (o2, s2, w3) = run_stress_tests timer test_data s c film_id user_id w2
                in case o2 of
                     Inl e \<Rightarrow> (Inl e, s2, w3)
                   | Inr (u1, u2) \<Rightarrow>
                      (let (o3, w4) = run_parallel_read_tests timer s2 c film_id user_id w3
                       in case o3 of
                            Inl e \<Rightarrow> (Inl e, s2, w4)
                          | Inr (p1, p2) \<Rightarrow>
                             (Inr \<lparr>res_dbms_name = dbms_name c,
                                   insert_100k_rows = t1,
                                   retrieve_last_timecode = t2,
                                   retrieve_most_viewed = t3,
                                   retrieve_last_timecode_under_load = u1,
                                   retrieve_most_viewed_under_load = u2,
                                   retrieve_last_timecode_in_parallel = p1,
                                   retrieve_most_viewed_in_parallel = p2\<rparr>, s2, w4)))))"

text \<open>
  \<^verbatim>\<open>run\<close> is a generator: it yields one record for each registered handle, in order,
  until an iteration raises. The model returns the records yielded and the error, if any.
\<close>

fun run_loop ::
  "timer \<Rightarrow> (int \<Rightarrow> row list) \<Rightarrow> client list \<Rightarrow> suite \<Rightarrow> world
     \<Rightarrow> TestResult list \<times> error option \<times> suite \<times> world" where
  "run_loop timer test_data [] s w = ([], None, s, w)"
| "run_loop timer test_data (c # cs) s w =
    (case run_client timer test_data s c w of
       (Inl e, s1, w1) \<Rightarrow> ([], Some e, s1, w1)
     | (Inr r, s1, w1) \<Rightarrow>
        (case run_loop timer test_data cs s1 w1 of
           (rs, err, s2, w2) \<Rightarrow> (r # rs, err, s2, w2)))"

definition run ::
  "timer \<Rightarrow> (int \<Rightarrow> row list) \<Rightarrow> suite \<Rightarrow> world
     \<Rightarrow> TestResult list \<times> error option \<times> suite \<times> world" where
  "run timer test_data s w = run_loop timer test_data (clients s) s w"

subsection \<open>Reading the trace\<close>

text \<open>
  The copies in a trace (the handle copied, the handle returned), the sizes of the
  pools created and the handles of the tasks submitted, each in order.
\<close>

fun copy_calls :: "event list \<Rightarrow> (client \<times> client) list" where
  "copy_calls [] = []"
| "copy_calls (Copy t c # evs) = (t, c) # copy_calls evs"
| "copy_calls (ev # evs) = copy_calls evs"

fun pool_sizes :: "event list \<Rightarrow> nat list" where
  "pool_sizes [] = []"
| "pool_sizes (Pool n # evs) = n # pool_sizes evs"
| "pool_sizes (ev # evs) = pool_sizes evs"

fun submitted :: "event list \<Rightarrow> client list" where
  "submitted [] = []"
| "submitted (Submit c # evs) = c # submitted evs"
| "submitted (ev # evs) = submitted evs"

text \<open>
  What a measurement function does: it calls and measures operations of its handle. It
  makes no copy, creates no pool and submits nothing.
\<close>

fun backend_event :: "event \<Rightarrow> bool" where
  "backend_event (Call c x) = True"
| "backend_event (Measure c x r) = True"
| "backend_event (Sleep d) = True"
| "backend_event ev = False"

definition worker :: "(client \<Rightarrow> world \<Rightarrow> (error + real) \<times> world) \<Rightarrow> bool" where
  "worker m \<longleftrightarrow>
     (\<forall>c w. \<exists>evs. snd (m c w) = w\<lparr>trace := trace w @ evs\<rparr> \<and> list_all backend_event evs)"

text \<open>
  The threads started, the point reads measured (film and user identifier) and the rows
  of the bulk inserts called without measurement, each in order.
\<close>

fun spawned :: "event list \<Rightarrow> thread list" where
  "spawned [] = []"
| "spawned (Spawn t # evs) = t # spawned evs"
| "spawned (ev # evs) = spawned evs"

fun point_reads :: "event list \<Rightarrow> (string \<times> string) list" where
  "point_reads [] = []"
| "point_reads (Measure c (RetrieveLastTimecode f u) r # evs) = (f, u) # point_reads evs"
| "point_reads (ev # evs) = point_reads evs"

fun plain_inserts :: "event list \<Rightarrow> row list list" where
  "plain_inserts [] = []"
| "plain_inserts (Call c (InsertData rows) # evs) = rows # plain_inserts evs"
| "plain_inserts (ev # evs) = plain_inserts evs"

text \<open>
  Events that insert nothing outside a measurement and whose point reads, if any, are
  for the film \<open>f\<close> and the user \<open>u\<close>; a world that extends another by such events.
\<close>

definition reads_only :: "string \<Rightarrow> string \<Rightarrow> event list \<Rightarrow> bool" where
  "reads_only f u evs \<longleftrightarrow> plain_inserts evs = [] \<and> set (point_reads evs) \<subseteq> {(f, u)}"

definition extends :: "string \<Rightarrow> string \<Rightarrow> world \<Rightarrow> world \<Rightarrow> bool" where
  "extends f u w w' \<longleftrightarrow> (\<exists>evs. trace w' = trace w @ evs \<and> reads_only f u evs)"

subsection \<open>Sample inputs\<close>

text \<open>
  Environments: \<open>punctual T\<close> has no delay and raises the flag at \<open>T\<close>; in \<open>late_once\<close>
  the second iteration takes three quarters of a second; in \<open>stalled\<close> the first sleep
  lasts five seconds longer than requested.
\<close>

definition punctual :: "real option \<Rightarrow> env" where
  "punctual T = \<lparr>finished_at = T, latency = (\<lambda>i. 0), oversleep = (\<lambda>i. 0)\<rparr>"

definition late_once :: env where
  "late_once =
    \<lparr>finished_at = None, latency = (\<lambda>i. if i = 1 then 3 / 4 else 0), oversleep = (\<lambda>i. 0)\<rparr>"

definition stalled :: env where
  "stalled =
    \<lparr>finished_at = None, latency = (\<lambda>i. 0), oversleep = (\<lambda>i. if i = 0 then 5 else 0)\<rparr>"

definition three_rows :: "row list" where
  "three_rows = [(''f0'', ''u'', []), (''f1'', ''u'', []), (''f2'', ''u'', [])]"

definition five_rows :: "row list" where
  "five_rows = [(''f0'', ''u'', []), (''f1'', ''u'', []), (''f2'', ''u'', []),
                (''f3'', ''u'', []), (''f4'', ''u'', [])]"

definition eight_rows :: "row list" where
  "eight_rows = [(''f0'', ''u'', []), (''f1'', ''u'', []), (''f2'', ''u'', []),
                 (''f3'', ''u'', []), (''f4'', ''u'', []), (''f5'', ''u'', []),
                 (''f6'', ''u'', []), (''f7'', ''u'', [])]"

text \<open>
  A stub backend and a world in which handle 0 is taken; a timer that answers a
  hundredth of a second times the serial number of the handle, and one that fails for
  handle 2; a suite of 1000 rows, 50 writes a second and 3 readers.
\<close>

definition stub :: client where
  "stub = \<lparr>dbms_name = ''stub'', handle_id = 0\<rparr>"

definition fresh :: world where
  "fresh = \<lparr>next_handle = 1, trace = []\<rparr>"

definition by_handle :: timer where
  "by_handle tr c x repeats = Inr (real (handle_id c) / 100)"

definition second_fails :: timer where
  "second_fails tr c x repeats =
     (if handle_id c = 2 then Inl (BackendError ''unreachable'') else Inr (2 / 1000))"

definition sample_suite :: suite where
  "sample_suite = TestSuite_init 1000 50 3"

text \<open>
  A generator whose first row differs from the later ones, and a suite of 3 rows, one
  write a second and one reader.
\<close>

definition numbered :: "int \<Rightarrow> row list" where
  "numbered n = map (\<lambda>i. (if i = 0 then ''first'' else ''later'', ''user'', [])) [0..<nat n]"

definition small_suite :: suite where
  "small_suite = TestSuite_init 3 1 1"

text \<open>
  Two stress tests of that suite, one after the other. The producer thread of the first
  has run to its end, stopped by the flag after two and a half seconds; its consumer
  thread has not read from the queue when the second test runs.
\<close>

definition first_test :: "(error + real \<times> real) \<times> suite \<times> world" where
  "first_test = run_stress_tests by_handle numbered small_suite stub ''first'' ''user'' fresh"

definition after_first :: suite where
  "after_first = producer_thread (punctual (Some (5 / 2))) (numbered 10) (1 / 1) 0 (fst (snd first_test))"

definition second_test :: "(error + real \<times> real) \<times> suite \<times> world" where
  "second_test =
     run_stress_tests by_handle numbered after_first stub ''first'' ''user'' (snd (snd first_test))"

text \<open>
  A suite of 3 rows, one write a second and 3 readers, and the record an iteration of
  \<^verbatim>\<open>run\<close> yields for it on the stub backend.
\<close>

definition reading_suite :: suite where
  "reading_suite = TestSuite_init 3 1 3"

definition sample_record :: TestResult where
  "sample_record =
    \<lparr>res_dbms_name = ''stub'', insert_100k_rows = 0, retrieve_last_timecode = 0,
     retrieve_most_viewed = 0, retrieve_last_timecode_under_load = 0,
     retrieve_most_viewed_under_load = 0, retrieve_last_timecode_in_parallel = 3 / 100,
     retrieve_most_viewed_in_parallel = 6 / 100\<rparr>"

section \<open>Properties\<close>

subsection \<open>The producer\<close>

lemma emit_fields [simp]:
  "shared (emit e p i r s) = shared s @ [Some r]"
  "next_produce (emit e p i r s) = next_produce s + p"
  "clock (emit e p i r s) = clock s + latency e i + max 0 (next_produce s + p - (clock s + latency e i)) + oversleep e i"
  "sleeps (emit e p i r s) = sleeps s @ [max 0 (next_produce s + p - (clock s + latency e i))]"
  "put_times (emit e p i r s) = put_times s @ [clock s]"
  "now_reads (emit e p i r s) = now_reads s @ [clock s + latency e i]"
  by (simp_all add: emit_def Let_def max_def)

lemma loop_queue:
  "\<exists>k\<le>length data.
     shared (produce_loop e p i data s) = shared s @ map Some (take k data) \<and>
     length (put_times (produce_loop e p i data s)) = length (put_times s) + k \<and>
     (k < length data \<longrightarrow> flag_set e (clock (produce_loop e p i data s)))"
proof (induction data arbitrary: i s)
  case Nil
  show ?case by simp
next
  case (Cons r rs)
  show ?case
  proof (cases "flag_set e (clock s)")
    case True
    then show ?thesis by (intro exI [of _ 0]) simp
  next
    case False
    from Cons.IH [of "Suc i" "emit e p i r s"] obtain k where
      k: "k \<le> length rs"
         "shared (produce_loop e p (Suc i) rs (emit e p i r s)) = shared (emit e p i r s) @ map Some (take k rs)"
         "length (put_times (produce_loop e p (Suc i) rs (emit e p i r s))) = length (put_times (emit e p i r s)) + k"
         "k < length rs \<longrightarrow> flag_set e (clock (produce_loop e p (Suc i) rs (emit e p i r s)))"
      by blast
    with False show ?thesis by (intro exI [of _ "Suc k"]) simp
  qed
qed

lemma loop_put_before_flag:
  "t \<in> set (put_times (produce_loop e p i data s)) \<Longrightarrow>
   t \<in> set (put_times s) \<or> \<not> flag_set e t"
proof (induction data arbitrary: i s)
  case Nil
  then show ?case by simp
next
  case (Cons r rs)
  show ?case
  proof (cases "flag_set e (clock s)")
    case True
    with Cons.prems show ?thesis by simp
  next
    case False
    with Cons.prems have "t \<in> set (put_times (produce_loop e p (Suc i) rs (emit e p i r s)))"
      by simp
    from Cons.IH [OF this] False show ?thesis by auto
  qed
qed

lemma loop_clock_bound:
  assumes "finished_at e = Some T" "0 \<le> p"
    and "\<forall>j. 0 \<le> latency e j \<and> 0 \<le> oversleep e j \<and> latency e j + oversleep e j \<le> D"
  shows "next_produce s \<le> clock s \<Longrightarrow>
    clock (produce_loop e p i data s) \<le> max (clock s) (T + p + D)"
proof (induction data arbitrary: i s)
  case Nil
  show ?case by simp
next
  case (Cons r rs)
  show ?case
  proof (cases "flag_set e (clock s)")
    case True
    then show ?thesis by simp
  next
    case False
    with assms(1) have lt: "clock s < T" by (simp add: flag_set_def)
    from assms(3) have d: "0 \<le> latency e i" "0 \<le> oversleep e i" "latency e i + oversleep e i \<le> D"
      by auto
    have inv: "next_produce (emit e p i r s) \<le> clock (emit e p i r s)"
      using d by (simp add: max_def)
    have step: "clock (emit e p i r s) \<le> T + p + D"
      using d lt Cons.prems assms(2) by (simp add: max_def)
    from Cons.IH [OF inv, of "Suc i"] step False show ?thesis by simp
  qed
qed

lemma produce_fields:
  "put_times (produce e p data q t0) = put_times (produce_loop e p 0 data (start q t0))"
  "clock (produce e p data q t0) = clock (produce_loop e p 0 data (start q t0))"
  "shared (produce e p data q t0) = shared (produce_loop e p 0 data (start q t0)) @ [None]"
  by (simp_all add: produce_def Let_def)

lemmas run_simps = produce_def start_def flag_set_def emit_def Let_def

text \<open>
  C1. For a positive rate, the producer puts a prefix of its rows on the queue and then
  exactly one sentinel, whether the rows ran out or it stopped early. It stops early
  only on reading the flag as set, and no row is put at a time at which the flag is
  set. When the flag is raised at \<open>T\<close> and an iteration loses at most \<open>D\<close> to latency
  and oversleeping, the producer is done, its sentinel pushed, by \<open>T\<close> plus one period
  plus \<open>D\<close> (or at its start, if that is later).
\<close>

theorem producer_stops_with_one_sentinel:
  assumes "0 < rate"
  shows "\<exists>k\<le>length data.
     shared (produce e (1 / rate) data q t0) = q @ map Some (take k data) @ [None] \<and>
     length (put_times (produce e (1 / rate) data q t0)) = k \<and>
     (k < length data \<longrightarrow> flag_set e (clock (produce e (1 / rate) data q t0))) \<and>
     (\<forall>t\<in>set (put_times (produce e (1 / rate) data q t0)). \<not> flag_set e t) \<and>
     (\<forall>T D. finished_at e = Some T \<and>
        (\<forall>j. 0 \<le> latency e j \<and> 0 \<le> oversleep e j \<and> latency e j + oversleep e j \<le> D)
        \<longrightarrow> clock (produce e (1 / rate) data q t0) \<le> max t0 (T + 1 / rate + D))"
proof -
  let ?p = "1 / rate"
  let ?l = "produce_loop e ?p 0 data (start q t0)"
  from loop_queue [of data e ?p 0 "start q t0"] obtain k where
    k: "k \<le> length data" "shared ?l = shared (start q t0) @ map Some (take k data)"
       "length (put_times ?l) = length (put_times (start q t0)) + k"
       "k < length data \<longrightarrow> flag_set e (clock ?l)"
    by blast
  have a: "shared (produce e ?p data q t0) = q @ map Some (take k data) @ [None]"
    using k(2) by (simp add: produce_fields start_def)
  have b: "length (put_times (produce e ?p data q t0)) = k"
    using k(3) by (simp add: produce_fields start_def)
  have c: "k < length data \<longrightarrow> flag_set e (clock (produce e ?p data q t0))"
    using k(4) by (simp add: produce_fields)
  have d: "\<forall>t\<in>set (put_times (produce e ?p data q t0)). \<not> flag_set e t"
  proof
    fix t assume "t \<in> set (put_times (produce e ?p data q t0))"
    then have "t \<in> set (put_times ?l)" by (simp add: produce_fields)
    from loop_put_before_flag [OF this] show "\<not> flag_set e t" by (simp add: start_def)
  qed
  have f: "clock (produce e ?p data q t0) \<le> max t0 (T + ?p + D)"
    if "finished_at e = Some T"
      and "\<forall>j. 0 \<le> latency e j \<and> 0 \<le> oversleep e j \<and> latency e j + oversleep e j \<le> D"
    for T D
  proof -
    have p0: "0 \<le> ?p" using assms by simp
    have "next_produce (start q t0) \<le> clock (start q t0)" by (simp add: start_def)
    from loop_clock_bound [OF that(1) p0 that(2) this, of 0 data]
    show ?thesis by (simp add: produce_fields start_def)
  qed
  from k(1) a b c d f show ?thesis by blast
qed

theorem producer_stops_with_one_sentinel_witness:
  "(0::real) < 1 \<and>
   shared (produce (punctual (Some (5 / 2))) (1 / 1) five_rows [] 0)
     = [Some (''f0'', ''u'', []), Some (''f1'', ''u'', []), Some (''f2'', ''u'', []), None] \<and>
   clock (produce (punctual (Some (5 / 2))) (1 / 1) five_rows [] 0) = 3 \<and>
   (\<exists>k\<le>length five_rows.
     shared (produce (punctual (Some (5 / 2))) (1 / 1) five_rows [] 0)
       = [] @ map Some (take k five_rows) @ [None] \<and>
     length (put_times (produce (punctual (Some (5 / 2))) (1 / 1) five_rows [] 0)) = k \<and>
     (k < length five_rows \<longrightarrow>
        flag_set (punctual (Some (5 / 2)))
          (clock (produce (punctual (Some (5 / 2))) (1 / 1) five_rows [] 0))) \<and>
     (\<forall>t\<in>set (put_times (produce (punctual (Some (5 / 2))) (1 / 1) five_rows [] 0)).
        \<not> flag_set (punctual (Some (5 / 2))) t) \<and>
     (\<forall>T D. finished_at (punctual (Some (5 / 2))) = Some T \<and>
        (\<forall>j. 0 \<le> latency (punctual (Some (5 / 2))) j \<and> 0 \<le> oversleep (punctual (Some (5 / 2))) j \<and>
             latency (punctual (Some (5 / 2))) j + oversleep (punctual (Some (5 / 2))) j \<le> D)
        \<longrightarrow> clock (produce (punctual (Some (5 / 2))) (1 / 1) five_rows [] 0)
              \<le> max 0 (T + 1 / 1 + D)))"
proof -
  have h: "(0::real) < 1" by simp
  have q: "shared (produce (punctual (Some (5 / 2))) (1 / 1) five_rows [] 0)
     = [Some (''f0'', ''u'', []), Some (''f1'', ''u'', []), Some (''f2'', ''u'', []), None]"
    by (simp add: run_simps punctual_def five_rows_def)
  have c: "clock (produce (punctual (Some (5 / 2))) (1 / 1) five_rows [] 0) = 3"
    by (simp add: run_simps punctual_def five_rows_def)
  note spec = producer_stops_with_one_sentinel
    [OF h, of five_rows "punctual (Some (5 / 2))" "[]" 0]
  from h q c spec show ?thesis by (intro conjI)
qed

subsection \<open>The schedule of the producer\<close>

lemma heads_emit: "heads (emit e p i r s) = heads s @ [clock (emit e p i r s)]"
  by (simp add: heads_def)

lemma sched_emit:
  assumes "sched e p t0 i s"
  shows "sched e p t0 (Suc i) (emit e p i r s)"
proof -
  from assms have len: "length (put_times s) = i" "length (sleeps s) = i" "length (now_reads s) = i"
    and np: "next_produce s = t0 + real i * p"
    and h0: "heads s ! 0 = t0"
    and sl: "\<And>k. k < i \<Longrightarrow> sleeps s ! k = max 0 (t0 + real (Suc k) * p - now_reads s ! k)"
    and nx: "\<And>k. k < i \<Longrightarrow> heads s ! Suc k = now_reads s ! k + sleeps s ! k + oversleep e k"
    by (simp_all add: sched_def)
  have lh: "length (heads s) = Suc i" using len by (simp add: heads_def)
  have a: "next_produce (emit e p i r s) = t0 + real (Suc i) * p"
    using np by (simp add: algebra_simps)
  have b: "sleeps (emit e p i r s) ! k = max 0 (t0 + real (Suc k) * p - now_reads (emit e p i r s) ! k)"
    if "k < Suc i" for k
  proof (cases "k < i")
    case True
    with sl [OF True] len show ?thesis by (simp add: nth_append)
  next
    case False
    with that have "k = i" by simp
    with len np show ?thesis by (simp add: nth_append algebra_simps)
  qed
  have c: "heads (emit e p i r s) ! Suc k
             = now_reads (emit e p i r s) ! k + sleeps (emit e p i r s) ! k + oversleep e k"
    if "k < Suc i" for k
  proof (cases "k < i")
    case True
    with nx [OF True] len lh show ?thesis by (simp add: heads_emit nth_append)
  next
    case False
    with that have "k = i" by simp
    with len lh show ?thesis by (simp add: heads_emit nth_append)
  qed
  have d: "heads (emit e p i r s) ! 0 = t0"
    using h0 lh by (simp add: heads_emit nth_append)
  from len a b c d show ?thesis unfolding sched_def by simp
qed

lemma sched_loop:
  "sched e p t0 i s \<Longrightarrow>
   sched e p t0 (length (put_times (produce_loop e p i data s))) (produce_loop e p i data s)"
proof (induction data arbitrary: i s)
  case Nil
  then show ?case by (simp add: sched_def)
next
  case (Cons r rs)
  show ?case
  proof (cases "flag_set e (clock s)")
    case True
    with Cons.prems show ?thesis by (simp add: sched_def)
  next
    case False
    from Cons.IH [OF sched_emit [OF Cons.prems]] False show ?thesis by simp
  qed
qed

lemma sched_start: "sched e p t0 0 (start q t0)"
  by (simp add: sched_def start_def heads_def)

lemma sched_shared: "sched e p t0 i (s\<lparr>shared := x\<rparr>) = sched e p t0 i s"
  by (simp add: sched_def heads_def)

lemma sched_produce:
  "sched e p t0 (length (put_times (produce e p data q t0))) (produce e p data q t0)"
  using sched_loop [OF sched_start, of e p t0 data q]
  by (simp add: produce_def Let_def sched_shared)

text \<open>
  C3. The producer keeps to the schedule: after \<open>n\<close> rows \<^verbatim>\<open>next_produce\<close> is the
  start time plus \<open>n\<close> periods. The first row is put at the start time. The sleep that
  follows row \<open>k\<close>, and precedes row \<open>k + 1\<close>, lasts the time left until the start time
  plus \<open>k + 1\<close> periods, counted from the reading of the clock, or zero when that time
  has passed: never a negative amount, and not one fixed period. Row \<open>k + 1\<close> is put when
  that sleep ends.
\<close>

theorem producer_follows_schedule:
  "length (sleeps (produce e period data q t0)) = length (put_times (produce e period data q t0)) \<and>
   length (now_reads (produce e period data q t0)) = length (put_times (produce e period data q t0)) \<and>
   next_produce (produce e period data q t0)
     = t0 + real (length (put_times (produce e period data q t0))) * period \<and>
   (0 < length (put_times (produce e period data q t0)) \<longrightarrow>
      put_times (produce e period data q t0) ! 0 = t0) \<and>
   (\<forall>k. k < length (sleeps (produce e period data q t0)) \<longrightarrow>
      sleeps (produce e period data q t0) ! k
        = max 0 (t0 + real (Suc k) * period - now_reads (produce e period data q t0) ! k) \<and>
      0 \<le> sleeps (produce e period data q t0) ! k) \<and>
   (\<forall>k. Suc k < length (put_times (produce e period data q t0)) \<longrightarrow>
      put_times (produce e period data q t0) ! Suc k
        = now_reads (produce e period data q t0) ! k + sleeps (produce e period data q t0) ! k
          + oversleep e k)"
proof -
  let ?s = "produce e period data q t0"
  let ?n = "length (put_times ?s)"
  have inv: "sched e period t0 ?n ?s" by (rule sched_produce)
  have a: "length (sleeps ?s) = ?n" "length (now_reads ?s) = ?n"
    "next_produce ?s = t0 + real ?n * period"
    using inv by (simp_all add: sched_def)
  have b: "0 < ?n \<longrightarrow> put_times ?s ! 0 = t0"
    using inv by (auto simp: sched_def heads_def nth_append)
  have c: "sleeps ?s ! k = max 0 (t0 + real (Suc k) * period - now_reads ?s ! k)"
    if "k < ?n" for k
    using inv that unfolding sched_def by blast
  have d: "put_times ?s ! Suc k = now_reads ?s ! k + sleeps ?s ! k + oversleep e k"
    if "Suc k < ?n" for k
  proof -
    from that have "k < ?n" by simp
    with inv have "heads ?s ! Suc k = now_reads ?s ! k + sleeps ?s ! k + oversleep e k"
      unfolding sched_def by blast
    with that show ?thesis by (simp add: heads_def nth_append)
  qed
  from a b c d show ?thesis by simp
qed

theorem producer_follows_schedule_witness:
  "sleeps (produce late_once (1 / 2) three_rows [] 0) = [1 / 2, 0, 1 / 4] \<and>
   now_reads (produce late_once (1 / 2) three_rows [] 0) = [0, 5 / 4, 5 / 4] \<and>
   put_times (produce late_once (1 / 2) three_rows [] 0) = [0, 1 / 2, 5 / 4] \<and>
   sleeps (produce late_once (1 / 2) three_rows [] 0) ! 1
     = max 0 (0 + real (Suc 1) * (1 / 2) - now_reads (produce late_once (1 / 2) three_rows [] 0) ! 1) \<and>
   put_times (produce late_once (1 / 2) three_rows [] 0) ! Suc 1
     = now_reads (produce late_once (1 / 2) three_rows [] 0) ! 1
       + sleeps (produce late_once (1 / 2) three_rows [] 0) ! 1 + oversleep late_once 1"
proof -
  have s: "sleeps (produce late_once (1 / 2) three_rows [] 0) = [1 / 2, 0, 1 / 4]"
    by (simp add: run_simps late_once_def three_rows_def)
  have n: "now_reads (produce late_once (1 / 2) three_rows [] 0) = [0, 5 / 4, 5 / 4]"
    by (simp add: run_simps late_once_def three_rows_def)
  have p: "put_times (produce late_once (1 / 2) three_rows [] 0) = [0, 1 / 2, 5 / 4]"
    by (simp add: run_simps late_once_def three_rows_def)
  have k1: "1 < length (sleeps (produce late_once (1 / 2) three_rows [] 0))"
    by (simp add: s)
  have k2: "Suc 1 < length (put_times (produce late_once (1 / 2) three_rows [] 0))"
    by (simp add: p)
  note spec = producer_follows_schedule [of late_once "1 / 2" three_rows "[]" 0]
  from spec k1 have a: "sleeps (produce late_once (1 / 2) three_rows [] 0) ! 1
     = max 0 (0 + real (Suc 1) * (1 / 2) - now_reads (produce late_once (1 / 2) three_rows [] 0) ! 1)"
    by blast
  from spec k2 have b: "put_times (produce late_once (1 / 2) three_rows [] 0) ! Suc 1
     = now_reads (produce late_once (1 / 2) three_rows [] 0) ! 1
       + sleeps (produce late_once (1 / 2) three_rows [] 0) ! 1 + oversleep late_once 1"
    by blast
  from s n p a b show ?thesis by (intro conjI)
qed

subsection \<open>Rows in a window of time\<close>

lemma put_time_lower:
  assumes "\<forall>i. 0 \<le> oversleep e i" and "k < length (put_times (produce e p data q t0))"
  shows "t0 + real k * p \<le> put_times (produce e p data q t0) ! k"
proof -
  let ?s = "produce e p data q t0"
  have inv: "sched e p t0 (length (put_times ?s)) ?s" by (rule sched_produce)
  show ?thesis
  proof (cases k)
    case 0
    with assms(2) inv show ?thesis by (simp add: sched_def heads_def nth_append)
  next
    case (Suc j)
    with assms(2) have j: "j < length (put_times ?s)" by simp
    from inv j have "heads ?s ! Suc j = now_reads ?s ! j + sleeps ?s ! j + oversleep e j"
      and "sleeps ?s ! j = max 0 (t0 + real (Suc j) * p - now_reads ?s ! j)"
      unfolding sched_def by blast+
    moreover from assms(2) Suc have "heads ?s ! Suc j = put_times ?s ! Suc j"
      by (simp add: heads_def nth_append)
    moreover from assms(1) have "0 \<le> oversleep e j" by simp
    ultimately show ?thesis using Suc by (simp add: max_def split: if_splits)
  qed
qed

lemma filter_index_bound:
  fixes m :: nat
  assumes "\<And>i. i < length xs \<Longrightarrow> P (xs ! i) \<Longrightarrow> i \<le> m"
  shows "length (filter P xs) \<le> Suc m"
proof -
  have "{i. i < length xs \<and> P (xs ! i)} \<subseteq> {..m}" using assms by auto
  then have "card {i. i < length xs \<and> P (xs ! i)} \<le> card {..m}"
    by (intro card_mono) simp_all
  then show ?thesis by (simp add: length_filter_conv_card)
qed

text \<open>
  C4, as amended. When no sleep ends earlier than requested, row \<open>k\<close> is never put
  before the start time plus \<open>k\<close> periods; so in the window of length \<open>T\<close> that begins
  at the start time the producer puts at most \<open>R * T + 1\<close> rows, for a rate \<open>R\<close>.
\<close>

theorem producer_window_from_start:
  assumes "0 < R" and "0 \<le> T" and "\<forall>i. 0 \<le> oversleep e i"
  shows "real (emitted_within (produce e (1 / R) data q t0) t0 (t0 + T)) \<le> R * T + 1"
proof -
  let ?s = "produce e (1 / R) data q t0"
  let ?m = "nat \<lfloor>R * T\<rfloor>"
  have RT: "0 \<le> R * T" using assms by simp
  have "i \<le> ?m" if "i < length (put_times ?s)"
    and "t0 \<le> put_times ?s ! i \<and> put_times ?s ! i \<le> t0 + T" for i
  proof -
    from put_time_lower [OF assms(3) that(1)] that(2) have "real i * (1 / R) \<le> T" by simp
    with assms(1) have "real i \<le> R * T" by (simp add: field_simps)
    then show ?thesis by (simp add: le_nat_floor)
  qed
  then have "length (filter (\<lambda>t. t0 \<le> t \<and> t \<le> t0 + T) (put_times ?s)) \<le> Suc ?m"
    by (rule filter_index_bound)
  then have "real (emitted_within ?s t0 (t0 + T)) \<le> real (Suc ?m)"
    by (simp add: emitted_within_def)
  also have "\<dots> \<le> R * T + 1" using RT by simp
  finally show ?thesis .
qed

theorem producer_window_from_start_witness:
  "(0::real) < 1 \<and> (0::real) \<le> 6 \<and> (\<forall>i. 0 \<le> oversleep stalled i) \<and>
   emitted_within (produce stalled (1 / 1) eight_rows [] 0) 0 (0 + 6) = 7 \<and>
   real (emitted_within (produce stalled (1 / 1) eight_rows [] 0) 0 (0 + 6)) \<le> 1 * 6 + 1"
proof -
  have h1: "(0::real) < 1" and h2: "(0::real) \<le> 6" by simp_all
  have h3: "\<forall>i. 0 \<le> oversleep stalled i" by (simp add: stalled_def)
  have v: "emitted_within (produce stalled (1 / 1) eight_rows [] 0) 0 (0 + 6) = 7"
    by (simp add: emitted_within_def run_simps stalled_def eight_rows_def)
  note spec = producer_window_from_start [OF h1 h2 h3, of eight_rows "[]" 0]
  from h1 h2 h3 v spec show ?thesis by (intro conjI)
qed

text \<open>
  C4, as stated, fails for a later window. At one row a second, a first sleep that
  lasts five seconds too long puts the producer behind its schedule; it then puts six
  rows at once, without sleeping, to catch up. The window from 6 to 7 holds seven rows,
  not the two of the bound.
\<close>

theorem producer_window_counterexample:
  "(\<forall>i. 0 \<le> oversleep stalled i) \<and>
   put_times (produce stalled (1 / 1) eight_rows [] 0) = [0, 6, 6, 6, 6, 6, 6, 7] \<and>
   \<not> real (emitted_within (produce stalled (1 / 1) eight_rows [] 0) 6 (6 + 1)) \<le> 1 * 1 + 1"
  by (simp add: emitted_within_def run_simps stalled_def eight_rows_def)

subsection \<open>The fan-out\<close>

lemma copy_calls_append [simp]: "copy_calls (a @ b) = copy_calls a @ copy_calls b"
  by (induction a rule: copy_calls.induct) simp_all

lemma pool_sizes_append [simp]: "pool_sizes (a @ b) = pool_sizes a @ pool_sizes b"
  by (induction a rule: pool_sizes.induct) simp_all

lemma submitted_append [simp]: "submitted (a @ b) = submitted a @ submitted b"
  by (induction a rule: submitted.induct) simp_all

lemma backend_events_silent:
  "list_all backend_event evs \<Longrightarrow> copy_calls evs = [] \<and> pool_sizes evs = [] \<and> submitted evs = []"
  by (induction evs rule: copy_calls.induct) simp_all

lemma copies_events [simp]:
  "copy_calls (map (Copy c) cs) = map (Pair c) cs"
  "pool_sizes (map (Copy c) cs) = []"
  "submitted (map (Copy c) cs) = []"
  by (induction cs) simp_all

lemma copies_spec:
  "copies c n w = (cs, w') \<Longrightarrow>
     cs = map (\<lambda>i. c\<lparr>handle_id := next_handle w + i\<rparr>) [0..<n] \<and>
     w' = w\<lparr>next_handle := next_handle w + n, trace := trace w @ map (Copy c) cs\<rparr>"
proof (induction n arbitrary: w cs w')
  case 0
  then show ?case by simp
next
  case (Suc n)
  obtain c1 w1 where a: "client_copy c w = (c1, w1)" by (cases "client_copy c w")
  obtain cs2 w2 where b: "copies c n w1 = (cs2, w2)" by (cases "copies c n w1")
  from a have c1: "c1 = c\<lparr>handle_id := next_handle w\<rparr>"
    and w1: "w1 = w\<lparr>next_handle := Suc (next_handle w), trace := trace w @ [Copy c c1]\<rparr>"
    by (auto simp: client_copy_def Let_def)
  from Suc.prems a b have r: "cs = c1 # cs2" "w' = w2" by simp_all
  from Suc.IH [OF b] have
    cs2: "cs2 = map (\<lambda>i. c\<lparr>handle_id := next_handle w1 + i\<rparr>) [0..<n]"
    and w2: "w2 = w1\<lparr>next_handle := next_handle w1 + n, trace := trace w1 @ map (Copy c) cs2\<rparr>"
    by simp_all
  have "map (\<lambda>i. c\<lparr>handle_id := next_handle w + i\<rparr>) [0..<Suc n]
        = c1 # map (\<lambda>i. c\<lparr>handle_id := next_handle w1 + i\<rparr>) [0..<n]"
    using c1 w1 by (simp add: upt_conv_Cons map_Suc_upt [symmetric] del: upt_Suc)
  with r cs2 w2 w1 show ?case by simp
qed

lemma copies_distinct:
  assumes "copies c n w = (cs, w')"
  shows "length cs = n \<and> distinct cs"
proof -
  from copies_spec [OF assms]
  have cs: "cs = map (\<lambda>i. c\<lparr>handle_id := next_handle w + i\<rparr>) [0..<n]" by simp
  have "inj_on (\<lambda>i. c\<lparr>handle_id := next_handle w + i\<rparr>) (set [0..<n])"
    by (rule inj_onI) (metis add_left_cancel client.select_convs(2) client.surjective client.update_convs(2))
  with cs show ?thesis by (simp add: distinct_map)
qed

lemma pool_map_length: "pool_map m cs w = (rs, w') \<Longrightarrow> length rs = length cs"
proof (induction cs arbitrary: w rs w')
  case Nil
  then show ?case by simp
next
  case (Cons c cs)
  obtain r w1 where a: "m c (log_event (Submit c) w) = (r, w1)"
    by (cases "m c (log_event (Submit c) w)")
  obtain rs2 w2 where b: "pool_map m cs w1 = (rs2, w2)" by (cases "pool_map m cs w1")
  from Cons.prems a b have "rs = r # rs2" by simp
  with Cons.IH [OF b] show ?case by simp
qed

lemma pool_map_trace:
  assumes "worker m"
  shows "pool_map m cs w = (rs, w') \<Longrightarrow>
    \<exists>evs. w' = w\<lparr>trace := trace w @ evs\<rparr> \<and>
          copy_calls evs = [] \<and> pool_sizes evs = [] \<and> submitted evs = cs"
proof (induction cs arbitrary: w rs w')
  case Nil
  then show ?case by (intro exI [of _ "[]"]) simp
next
  case (Cons c cs)
  obtain r w1 where a: "m c (log_event (Submit c) w) = (r, w1)"
    by (cases "m c (log_event (Submit c) w)")
  obtain rs2 w2 where b: "pool_map m cs w1 = (rs2, w2)" by (cases "pool_map m cs w1")
  from Cons.prems a b have r: "w' = w2" by simp
  from assms obtain ev1 where
    "snd (m c (log_event (Submit c) w))
       = (log_event (Submit c) w)\<lparr>trace := trace (log_event (Submit c) w) @ ev1\<rparr>"
    and q: "list_all backend_event ev1"
    unfolding worker_def by blast
  with a have w1: "w1 = w\<lparr>trace := trace w @ Submit c # ev1\<rparr>"
    by (simp add: log_event_def)
  from Cons.IH [OF b] obtain ev2 where
    w2: "w2 = w1\<lparr>trace := trace w1 @ ev2\<rparr>"
    and s2: "copy_calls ev2 = []" "pool_sizes ev2 = []" "submitted ev2 = cs"
    by blast
  from w1 w2 r have "w' = w\<lparr>trace := trace w @ (Submit c # ev1 @ ev2)\<rparr>" by simp
  moreover from backend_events_silent [OF q] s2
  have "copy_calls (Submit c # ev1 @ ev2) = []" "pool_sizes (Submit c # ev1 @ ev2) = []"
    "submitted (Submit c # ev1 @ ev2) = c # cs"
    by simp_all
  ultimately show ?case by blast
qed

lemma collect_Inr: "collect rs = Inr ds \<Longrightarrow> rs = map Inr ds"
proof (induction rs arbitrary: ds)
  case Nil
  then show ?case by simp
next
  case (Cons r rs)
  then show ?case by (cases r) (auto split: sum.splits)
qed

lemma collect_Inl: "collect rs = Inl e \<Longrightarrow> Inl e \<in> set rs"
proof (induction rs)
  case Nil
  then show ?case by simp
next
  case (Cons r rs)
  then show ?case by (cases r) (auto split: sum.splits)
qed

lemma collect_map_Inr: "collect (map Inr ds) = Inr ds"
  by (induction ds) simp_all

lemma collect_fails: "Inl e \<in> set rs \<Longrightarrow> \<exists>e'. collect rs = Inl e'"
proof (cases "collect rs")
  case (Inl e')
  then show ?thesis by blast
next
  case (Inr ds)
  assume "Inl e \<in> set rs"
  with collect_Inr [OF Inr] show ?thesis by auto
qed

lemma run_in_parallel_unfold:
  assumes "0 < N" and "copies c (nat N) w = (cs, w1)"
    and "pool_map m cs (log_event (Pool (nat N)) w1) = (rs, w2)"
  shows "run_in_parallel c m N w = (collect rs, w2)"
  using assms by (simp add: run_in_parallel_def)

lemma measure_last_timecode_trace:
  "snd (measure_retrieve_last_timecode timer f u c w)
     = w\<lparr>trace := trace w @ [Call c Connect, Measure c (RetrieveLastTimecode f u) (Some 100)]\<rparr>"
  by (simp add: measure_retrieve_last_timecode_def measure_time_def log_event_def)

lemma measure_most_viewed_trace:
  "snd (measure_retrieve_most_viewed timer c w)
     = w\<lparr>trace := trace w @ [Call c Connect, Measure c RetrieveMostViewed (Some 100)]\<rparr>"
  by (simp add: measure_retrieve_most_viewed_def measure_time_def log_event_def)

lemma worker_last_timecode: "worker (measure_retrieve_last_timecode timer f u)"
  unfolding worker_def
proof (intro allI)
  fix c w
  show "\<exists>evs. snd (measure_retrieve_last_timecode timer f u c w) = w\<lparr>trace := trace w @ evs\<rparr>
          \<and> list_all backend_event evs"
    by (intro exI [of _ "[Call c Connect, Measure c (RetrieveLastTimecode f u) (Some 100)]"])
       (simp add: measure_last_timecode_trace)
qed

lemma worker_most_viewed: "worker (measure_retrieve_most_viewed timer)"
  unfolding worker_def
proof (intro allI)
  fix c w
  show "\<exists>evs. snd (measure_retrieve_most_viewed timer c w) = w\<lparr>trace := trace w @ evs\<rparr>
          \<and> list_all backend_event evs"
    by (intro exI [of _ "[Call c Connect, Measure c RetrieveMostViewed (Some 100)]"])
       (simp add: measure_most_viewed_trace)
qed

lemma run_in_parallel_Inr:
  assumes "run_in_parallel c m N w = (Inr ds, w')"
  shows "0 < N \<and> length ds = nat N"
proof -
  obtain cs w1 where a: "copies c (nat N) w = (cs, w1)" by (cases "copies c (nat N) w")
  obtain rs w2 where b: "pool_map m cs (log_event (Pool (nat N)) w1) = (rs, w2)"
    by (cases "pool_map m cs (log_event (Pool (nat N)) w1)")
  have N: "0 < N"
  proof (rule ccontr)
    assume "\<not> 0 < N"
    with assms a show False by (simp add: run_in_parallel_def)
  qed
  from run_in_parallel_unfold [OF N a b] assms have "collect rs = Inr ds" by simp
  from collect_Inr [OF this] pool_map_length [OF b] copies_distinct [OF a] N
  show ?thesis by simp
qed

lemmas fan_simps = run_in_parallel_def client_copy_def log_event_def measure_time_def
  measure_retrieve_last_timecode_def measure_retrieve_most_viewed_def Let_def

lemma fan_out_sample:
  "run_in_parallel stub (measure_retrieve_most_viewed by_handle) 3 fresh
   = (Inr [1 / 100, 2 / 100, 3 / 100],
      \<lparr>next_handle = 4,
       trace = [Copy stub (stub\<lparr>handle_id := 1\<rparr>), Copy stub (stub\<lparr>handle_id := 2\<rparr>),
                Copy stub (stub\<lparr>handle_id := 3\<rparr>), Pool 3,
                Submit (stub\<lparr>handle_id := 1\<rparr>), Call (stub\<lparr>handle_id := 1\<rparr>) Connect,
                Measure (stub\<lparr>handle_id := 1\<rparr>) RetrieveMostViewed (Some 100),
                Submit (stub\<lparr>handle_id := 2\<rparr>), Call (stub\<lparr>handle_id := 2\<rparr>) Connect,
                Measure (stub\<lparr>handle_id := 2\<rparr>) RetrieveMostViewed (Some 100),
                Submit (stub\<lparr>handle_id := 3\<rparr>), Call (stub\<lparr>handle_id := 3\<rparr>) Connect,
                Measure (stub\<lparr>handle_id := 3\<rparr>) RetrieveMostViewed (Some 100)]\<rparr>)"
  by (simp add: fan_simps stub_def fresh_def by_handle_def eval_nat_numeral)

text \<open>
  C5. For a worker count \<open>N\<close> of at least one and a measurement function that only
  calls and measures its handle, one call of the fan-out adds to the trace exactly \<open>N\<close>
  copies, all of the template handle and all returning different handles, one pool of
  size \<open>N\<close>, and one submission for each of the copies, in order; a list of durations
  it returns has length \<open>N\<close>.
\<close>

theorem fan_out_copies_and_results:
  assumes "1 \<le> N" and "worker m"
  shows "\<exists>cs new.
     trace (snd (run_in_parallel c m N w)) = trace w @ new \<and>
     copy_calls new = map (Pair c) cs \<and> length cs = nat N \<and> distinct cs \<and>
     pool_sizes new = [nat N] \<and>
     submitted new = cs \<and>
     (\<forall>ds. fst (run_in_parallel c m N w) = Inr ds \<longrightarrow> length ds = nat N)"
proof -
  obtain cs w1 where a: "copies c (nat N) w = (cs, w1)" by (cases "copies c (nat N) w")
  obtain rs w2 where b: "pool_map m cs (log_event (Pool (nat N)) w1) = (rs, w2)"
    by (cases "pool_map m cs (log_event (Pool (nat N)) w1)")
  from assms(1) have N: "0 < N" by simp
  note run = run_in_parallel_unfold [OF N a b]
  from copies_spec [OF a] have w1: "trace w1 = trace w @ map (Copy c) cs" by simp
  from copies_distinct [OF a] have cs: "length cs = nat N" "distinct cs" by simp_all
  from pool_map_trace [OF assms(2) b] obtain evs where
    w2: "w2 = (log_event (Pool (nat N)) w1)\<lparr>trace := trace (log_event (Pool (nat N)) w1) @ evs\<rparr>"
    and ev: "copy_calls evs = []" "pool_sizes evs = []" "submitted evs = cs"
    by blast
  let ?new = "map (Copy c) cs @ Pool (nat N) # evs"
  have t: "trace (snd (run_in_parallel c m N w)) = trace w @ ?new"
    using run w1 w2 by (simp add: log_event_def)
  have p: "copy_calls ?new = map (Pair c) cs" "pool_sizes ?new = [nat N]" "submitted ?new = cs"
    using ev by simp_all
  have l: "length ds = nat N" if "fst (run_in_parallel c m N w) = Inr ds" for ds
  proof -
    from that run have "collect rs = Inr ds" by simp
    from collect_Inr [OF this] pool_map_length [OF b] cs(1) show ?thesis by simp
  qed
  from t p cs l show ?thesis by blast
qed

theorem fan_out_copies_and_results_witness:
  "(1::int) \<le> 3 \<and> worker (measure_retrieve_most_viewed by_handle) \<and>
   fst (run_in_parallel stub (measure_retrieve_most_viewed by_handle) 3 fresh)
     = Inr [1 / 100, 2 / 100, 3 / 100] \<and>
   copy_calls (trace (snd (run_in_parallel stub (measure_retrieve_most_viewed by_handle) 3 fresh)))
     = [(stub, stub\<lparr>handle_id := 1\<rparr>), (stub, stub\<lparr>handle_id := 2\<rparr>),
        (stub, stub\<lparr>handle_id := 3\<rparr>)] \<and>
   (\<exists>cs new.
     trace (snd (run_in_parallel stub (measure_retrieve_most_viewed by_handle) 3 fresh))
       = trace fresh @ new \<and>
     copy_calls new = map (Pair stub) cs \<and> length cs = nat 3 \<and> distinct cs \<and>
     pool_sizes new = [nat 3] \<and>
     submitted new = cs \<and>
     (\<forall>ds. fst (run_in_parallel stub (measure_retrieve_most_viewed by_handle) 3 fresh) = Inr ds
        \<longrightarrow> length ds = nat 3))"
proof -
  have h: "(1::int) \<le> 3" by simp
  have wk: "worker (measure_retrieve_most_viewed by_handle)" by (rule worker_most_viewed)
  have r: "fst (run_in_parallel stub (measure_retrieve_most_viewed by_handle) 3 fresh)
     = Inr [1 / 100, 2 / 100, 3 / 100]"
    by (simp add: fan_out_sample)
  have t: "copy_calls (trace (snd (run_in_parallel stub (measure_retrieve_most_viewed by_handle) 3 fresh)))
     = [(stub, stub\<lparr>handle_id := 1\<rparr>), (stub, stub\<lparr>handle_id := 2\<rparr>),
        (stub, stub\<lparr>handle_id := 3\<rparr>)]"
    by (simp add: fan_out_sample)
  note spec = fan_out_copies_and_results [OF h wk, of stub fresh]
  from h wk r t spec show ?thesis by (intro conjI)
qed

text \<open>
  C7. When the call of a worker raises, the fan-out returns no list of durations: it
  raises an error of one of its workers, after every worker has run. The parallel read
  tests then raise that error too, from the first fan-out or from the second, and
  return no average.
\<close>

theorem worker_failure_aborts_fan_out:
  "(0 < N \<and> copies c (nat N) w = (cs, w1) \<and>
    pool_map m cs (log_event (Pool (nat N)) w1) = (rs, w2) \<and> Inl e \<in> set rs \<longrightarrow>
      (\<exists>e'. run_in_parallel c m N w = (Inl e', w2) \<and> Inl e' \<in> set rs)) \<and>
   (run_in_parallel c (measure_retrieve_last_timecode timer f u) (readers_count s) w = (Inl e, w1)
      \<longrightarrow> run_parallel_read_tests timer s c f u w = (Inl e, w1)) \<and>
   (run_in_parallel c (measure_retrieve_last_timecode timer f u) (readers_count s) w = (Inr r1, w1) \<and>
    run_in_parallel c (measure_retrieve_most_viewed timer) (readers_count s) w1 = (Inl e, w2)
      \<longrightarrow> run_parallel_read_tests timer s c f u w = (Inl e, w2))"
proof (intro conjI impI)
  assume h: "0 < N \<and> copies c (nat N) w = (cs, w1) \<and>
    pool_map m cs (log_event (Pool (nat N)) w1) = (rs, w2) \<and> Inl e \<in> set rs"
  then have h1: "0 < N" and h2: "copies c (nat N) w = (cs, w1)"
    and h3: "pool_map m cs (log_event (Pool (nat N)) w1) = (rs, w2)" and h4: "Inl e \<in> set rs"
    by blast+
  have run: "run_in_parallel c m N w = (collect rs, w2)"
    by (rule run_in_parallel_unfold [OF h1 h2 h3])
  from collect_fails [OF h4] obtain e' where e': "collect rs = Inl e'" by blast
  from collect_Inl [OF e'] run e'
  show "\<exists>e'. run_in_parallel c m N w = (Inl e', w2) \<and> Inl e' \<in> set rs" by auto
next
  assume "run_in_parallel c (measure_retrieve_last_timecode timer f u) (readers_count s) w = (Inl e, w1)"
  then show "run_parallel_read_tests timer s c f u w = (Inl e, w1)"
    by (simp add: run_parallel_read_tests_def)
next
  assume h: "run_in_parallel c (measure_retrieve_last_timecode timer f u) (readers_count s) w = (Inr r1, w1) \<and>
    run_in_parallel c (measure_retrieve_most_viewed timer) (readers_count s) w1 = (Inl e, w2)"
  then have a: "run_in_parallel c (measure_retrieve_last_timecode timer f u) (readers_count s) w = (Inr r1, w1)"
    by simp
  from run_in_parallel_Inr [OF a] h
  show "run_parallel_read_tests timer s c f u w = (Inl e, w2)"
    by (simp add: run_parallel_read_tests_def average_def)
qed

theorem worker_failure_aborts_fan_out_witness:
  "fst (run_in_parallel stub (measure_retrieve_last_timecode second_fails ''film'' ''user'')
          (readers_count sample_suite) fresh) = Inl (BackendError ''unreachable'') \<and>
   fst (run_parallel_read_tests second_fails sample_suite stub ''film'' ''user'' fresh)
     = Inl (BackendError ''unreachable'')"
proof -
  let ?m1 = "measure_retrieve_last_timecode second_fails ''film'' ''user''"
  let ?w1 = "snd (run_in_parallel stub ?m1 (readers_count sample_suite) fresh)"
  have a: "run_in_parallel stub ?m1 (readers_count sample_suite) fresh
             = (Inl (BackendError ''unreachable''), ?w1)"
    by (simp add: prod_eq_iff)
       (simp add: fan_simps stub_def fresh_def second_fails_def sample_suite_def TestSuite_init_def
          eval_nat_numeral)
  note spec = worker_failure_aborts_fan_out [THEN conjunct2, THEN conjunct1, rule_format, OF a]
  from a have a1: "fst (run_in_parallel stub ?m1 (readers_count sample_suite) fresh)
      = Inl (BackendError ''unreachable'')"
    by (metis fst_conv)
  from spec have a2: "fst (run_parallel_read_tests second_fails sample_suite stub ''film'' ''user'' fresh)
      = Inl (BackendError ''unreachable'')"
    by (metis fst_conv)
  from a1 a2 show ?thesis by (intro conjI)
qed

subsection \<open>The stress test\<close>

lemma spawned_append [simp]: "spawned (a @ b) = spawned a @ spawned b"
  by (induction a rule: spawned.induct) simp_all

lemma stress_spawns:
  assumes "wps s \<noteq> 0"
  shows "spawned (trace (snd (snd (run_stress_tests timer test_data s c f u w))))
     = spawned (trace w) @ [Producer (test_data (10 * wps s)) (1 / real_of_int (wps s)),
                            Consumer (c\<lparr>handle_id := next_handle w\<rparr>)]"
  using assms
  by (simp add: run_stress_tests_def client_copy_def measure_time_def log_event_def Let_def
      split: sum.splits)

lemma flag_never_set: "finished_at e = None \<Longrightarrow> \<not> flag_set e t"
  by (simp add: flag_set_def)

lemma produce_bounded:
  "length (put_times (produce e p data q t0)) \<le> length data \<and>
   length (sleeps (produce e p data q t0)) = length (put_times (produce e p data q t0)) \<and>
   shared (produce e p data q t0)
     = q @ map Some (take (length (put_times (produce e p data q t0))) data) @ [None] \<and>
   (finished_at e = None \<longrightarrow> length (put_times (produce e p data q t0)) = length data)"
proof -
  let ?l = "produce_loop e p 0 data (start q t0)"
  from loop_queue [of data e p 0 "start q t0"] obtain k where
    k: "k \<le> length data" "shared ?l = shared (start q t0) @ map Some (take k data)"
       "length (put_times ?l) = length (put_times (start q t0)) + k"
       "k < length data \<longrightarrow> flag_set e (clock ?l)"
    by blast
  have n: "length (put_times (produce e p data q t0)) = k"
    using k(3) by (simp add: produce_fields start_def)
  have sl: "length (sleeps (produce e p data q t0)) = length (put_times (produce e p data q t0))"
    using sched_produce [of e p t0 data q] by (simp add: sched_def)
  have sh: "shared (produce e p data q t0) = q @ map Some (take k data) @ [None]"
    using k(2) by (simp add: produce_fields start_def)
  have "k = length data" if "finished_at e = None"
    using k(1,4) flag_never_set [OF that] by (cases "k < length data") auto
  with n sl sh k(1) show ?thesis by simp
qed

lemma numbered_10:
  "numbered 10 = [(''first'', ''user'', []), (''later'', ''user'', []), (''later'', ''user'', []),
     (''later'', ''user'', []), (''later'', ''user'', []), (''later'', ''user'', []),
     (''later'', ''user'', []), (''later'', ''user'', []), (''later'', ''user'', []),
     (''later'', ''user'', [])]"
  by (simp add: numbered_def upt_rec)

text \<open>
  C10. For a rate \<open>wps\<close> of at least one and a generator that yields as many rows as
  asked for, a stress test starts one producer thread, on \<open>10 * wps\<close> rows with the
  period \<open>1 / wps\<close>. Whatever the environment, that producer goes through its loop body
  at most \<open>10 * wps\<close> times and then pushes the sentinel; when the flag is never raised
  it puts all \<open>10 * wps\<close> rows.
\<close>

theorem stress_stream_is_ten_seconds_of_rows:
  assumes "1 \<le> wps s" and "length (test_data (10 * wps s)) = nat (10 * wps s)"
  shows "\<exists>data cc.
     spawned (trace (snd (snd (run_stress_tests timer test_data s c f u w))))
       = spawned (trace w) @ [Producer data (1 / real_of_int (wps s)), Consumer cc] \<and>
     length data = nat (10 * wps s) \<and>
     (\<forall>e q t0.
        length (put_times (produce e (1 / real_of_int (wps s)) data q t0)) \<le> nat (10 * wps s) \<and>
        length (sleeps (produce e (1 / real_of_int (wps s)) data q t0))
          = length (put_times (produce e (1 / real_of_int (wps s)) data q t0)) \<and>
        (finished_at e = None \<longrightarrow>
           length (put_times (produce e (1 / real_of_int (wps s)) data q t0)) = nat (10 * wps s) \<and>
           shared (produce e (1 / real_of_int (wps s)) data q t0) = q @ map Some data @ [None]))"
proof -
  let ?data = "test_data (10 * wps s)"
  let ?p = "1 / real_of_int (wps s)"
  from assms(1) have nz: "wps s \<noteq> 0" by simp
  have b: "length (put_times (produce e ?p ?data q t0)) \<le> nat (10 * wps s) \<and>
        length (sleeps (produce e ?p ?data q t0)) = length (put_times (produce e ?p ?data q t0)) \<and>
        (finished_at e = None \<longrightarrow>
           length (put_times (produce e ?p ?data q t0)) = nat (10 * wps s) \<and>
           shared (produce e ?p ?data q t0) = q @ map Some ?data @ [None])" for e q t0
    using produce_bounded [of e ?p ?data q t0] assms(2) by auto
  from stress_spawns [OF nz, of timer test_data c f u w] assms(2) b
  show ?thesis by blast
qed

theorem stress_stream_is_ten_seconds_of_rows_witness:
  "1 \<le> wps small_suite \<and>
   length (numbered (10 * wps small_suite)) = nat (10 * wps small_suite) \<and>
   length (put_times (produce (punctual None) (1 / real_of_int (wps small_suite))
                        (numbered (10 * wps small_suite)) [] 0)) = 10 \<and>
   (\<exists>data cc.
     spawned (trace (snd (snd (run_stress_tests by_handle numbered small_suite stub ''f'' ''u'' fresh))))
       = spawned (trace fresh) @ [Producer data (1 / real_of_int (wps small_suite)), Consumer cc] \<and>
     length data = nat (10 * wps small_suite) \<and>
     (\<forall>e q t0.
        length (put_times (produce e (1 / real_of_int (wps small_suite)) data q t0))
          \<le> nat (10 * wps small_suite) \<and>
        length (sleeps (produce e (1 / real_of_int (wps small_suite)) data q t0))
          = length (put_times (produce e (1 / real_of_int (wps small_suite)) data q t0)) \<and>
        (finished_at e = None \<longrightarrow>
           length (put_times (produce e (1 / real_of_int (wps small_suite)) data q t0))
             = nat (10 * wps small_suite) \<and>
           shared (produce e (1 / real_of_int (wps small_suite)) data q t0)
             = q @ map Some data @ [None])))"
proof -
  have w: "wps small_suite = 1" by (simp add: small_suite_def TestSuite_init_def)
  have h1: "1 \<le> wps small_suite" by (simp add: w)
  have h2: "length (numbered (10 * wps small_suite)) = nat (10 * wps small_suite)"
    by (simp add: numbered_def)
  have v: "length (put_times (produce (punctual None) (1 / real_of_int (wps small_suite))
                        (numbered (10 * wps small_suite)) [] 0)) = 10"
    by (simp add: w numbered_10 run_simps punctual_def)
  note spec = stress_stream_is_ten_seconds_of_rows
    [where s = small_suite and test_data = numbered and timer = by_handle and c = stub
       and f = "''f''" and u = "''u''" and w = fresh, OF h1 h2]
  from h1 h2 v spec show ?thesis by (intro conjI)
qed

subsection \<open>The queue and the flag across stress tests\<close>

lemma stress_keeps_queue:
  "queue (fst (snd (run_stress_tests timer test_data s c f u w))) = queue s"
  by (simp add: run_stress_tests_def client_copy_def measure_time_def log_event_def Let_def
      split: sum.splits)

lemma stress_flag:
  "(fst (run_stress_tests timer test_data s c f u w) = Inr (t1, t2) \<longrightarrow>
      stress_tests_finished (fst (snd (run_stress_tests timer test_data s c f u w)))) \<and>
   (wps s \<noteq> 0 \<and> fst (run_stress_tests timer test_data s c f u w) = Inl err \<longrightarrow>
      \<not> stress_tests_finished (fst (snd (run_stress_tests timer test_data s c f u w))))"
  by (auto simp: run_stress_tests_def client_copy_def measure_time_def log_event_def Let_def
      split: sum.splits)

lemma iter_queue_rows: "iter_queue (map Some rs @ None # q) = Some (rs, q)"
  by (induction rs) simp_all

text \<open>
  C8, as amended. The queue is created with the suite, empty, and a stress test does
  not replace or empty it: the orchestrating thread leaves it as it is. The flag is an
  attribute of the suite: false in a new suite, true after a stress test whose
  measurements returned, false after one whose measurement raised. A producer thread
  appends a prefix of its rows and one sentinel to what is on the queue. On a queue
  that is empty before, the consumer thread then forwards these rows and leaves the
  queue empty.
\<close>

theorem queue_lives_with_the_suite:
  "queue (TestSuite_init rc wp rd) = [] \<and>
   \<not> stress_tests_finished (TestSuite_init rc wp rd) \<and>
   queue (fst (snd (run_stress_tests timer test_data s c f u w))) = queue s \<and>
   (fst (run_stress_tests timer test_data s c f u w) = Inr (t1, t2) \<longrightarrow>
      stress_tests_finished (fst (snd (run_stress_tests timer test_data s c f u w)))) \<and>
   (wps s \<noteq> 0 \<and> fst (run_stress_tests timer test_data s c f u w) = Inl err \<longrightarrow>
      \<not> stress_tests_finished (fst (snd (run_stress_tests timer test_data s c f u w)))) \<and>
   (\<exists>k\<le>length data.
      queue (producer_thread e data p t0 s) = queue s @ map Some (take k data) @ [None] \<and>
      (queue s = [] \<longrightarrow>
         consumer_thread insert_data backend (producer_thread e data p t0 s)
           = Some (insert_data (take k data) backend, (producer_thread e data p t0 s)\<lparr>queue := []\<rparr>)))"
proof -
  let ?k = "length (put_times (produce e p data (queue s) t0))"
  from produce_bounded [of e p data "queue s" t0]
  have k: "?k \<le> length data"
    and q: "queue (producer_thread e data p t0 s) = queue s @ map Some (take ?k data) @ [None]"
    by (simp_all add: producer_thread_def)
  have c: "consumer_thread insert_data backend (producer_thread e data p t0 s)
           = Some (insert_data (take ?k data) backend, (producer_thread e data p t0 s)\<lparr>queue := []\<rparr>)"
    if "queue s = []"
    using q that iter_queue_rows [of "take ?k data" "[]"]
    by (simp add: consumer_thread_def consume_def)
  from stress_keeps_queue [of timer test_data s c f u w]
    stress_flag [of timer test_data s c f u w t1 t2 err] k q c
  show ?thesis by (auto simp: TestSuite_init_def)
qed

theorem queue_lives_with_the_suite_witness:
  "queue small_suite = [] \<and>
   queue (producer_thread (punctual (Some (5 / 2))) (numbered 10) (1 / 1) 0 small_suite)
     = [Some (''first'', ''user'', []), Some (''later'', ''user'', []), Some (''later'', ''user'', []), None] \<and>
   (\<exists>k\<le>length (numbered 10).
      queue (producer_thread (punctual (Some (5 / 2))) (numbered 10) (1 / 1) 0 small_suite)
        = queue small_suite @ map Some (take k (numbered 10)) @ [None] \<and>
      consumer_thread (\<lambda>rs b. b @ rs) []
          (producer_thread (punctual (Some (5 / 2))) (numbered 10) (1 / 1) 0 small_suite)
        = Some ([] @ take k (numbered 10),
                (producer_thread (punctual (Some (5 / 2))) (numbered 10) (1 / 1) 0 small_suite)
                  \<lparr>queue := []\<rparr>))"
proof -
  have h: "queue small_suite = []" by (simp add: small_suite_def TestSuite_init_def)
  have v: "queue (producer_thread (punctual (Some (5 / 2))) (numbered 10) (1 / 1) 0 small_suite)
     = [Some (''first'', ''user'', []), Some (''later'', ''user'', []), Some (''later'', ''user'', []), None]"
    by (simp add: producer_thread_def small_suite_def TestSuite_init_def numbered_10 run_simps
        punctual_def)
  note spec = queue_lives_with_the_suite
    [where s = small_suite and e = "punctual (Some (5 / 2))" and data = "numbered 10"
       and p = "1 / 1" and ?t0.0 = 0 and insert_data = "\<lambda>rs b. b @ rs" and backend = "[]",
     THEN conjunct2, THEN conjunct2, THEN conjunct2, THEN conjunct2, THEN conjunct2]
  from spec obtain k where k: "k \<le> length (numbered 10)"
    "queue (producer_thread (punctual (Some (5 / 2))) (numbered 10) (1 / 1) 0 small_suite)
        = queue small_suite @ map Some (take k (numbered 10)) @ [None]"
    "queue small_suite = [] \<longrightarrow>
      consumer_thread (\<lambda>rs b. b @ rs) []
          (producer_thread (punctual (Some (5 / 2))) (numbered 10) (1 / 1) 0 small_suite)
        = Some ([] @ take k (numbered 10),
                (producer_thread (punctual (Some (5 / 2))) (numbered 10) (1 / 1) 0 small_suite)
                  \<lparr>queue := []\<rparr>)"
    by blast
  from k(3) h have c: "consumer_thread (\<lambda>rs b. b @ rs) []
          (producer_thread (punctual (Some (5 / 2))) (numbered 10) (1 / 1) 0 small_suite)
        = Some ([] @ take k (numbered 10),
                (producer_thread (punctual (Some (5 / 2))) (numbered 10) (1 / 1) 0 small_suite)
                  \<lparr>queue := []\<rparr>)"
    by (rule mp)
  from k(1,2) c have "\<exists>k\<le>length (numbered 10).
      queue (producer_thread (punctual (Some (5 / 2))) (numbered 10) (1 / 1) 0 small_suite)
        = queue small_suite @ map Some (take k (numbered 10)) @ [None] \<and>
      consumer_thread (\<lambda>rs b. b @ rs) []
          (producer_thread (punctual (Some (5 / 2))) (numbered 10) (1 / 1) 0 small_suite)
        = Some ([] @ take k (numbered 10),
                (producer_thread (punctual (Some (5 / 2))) (numbered 10) (1 / 1) 0 small_suite)
                  \<lparr>queue := []\<rparr>)"
    by blast
  with h v show ?thesis by (intro conjI)
qed

lemma after_first_queue:
  "queue after_first
     = [Some (''first'', ''user'', []), Some (''later'', ''user'', []), Some (''later'', ''user'', []), None]"
  by (simp add: after_first_def first_test_def producer_thread_def stress_keeps_queue
      small_suite_def TestSuite_init_def numbered_10 run_simps punctual_def)

text \<open>
  C8, as stated, fails: the second stress test does not start on a fresh queue. The
  first test has returned its measurements and set the flag; the three rows and the
  sentinel its producer put are still on the queue of the suite after the second test
  has started, and the consumer of the second test forwards the rows of the first and
  stops at its sentinel.
\<close>

theorem queue_is_not_fresh_counterexample:
  "fst first_test = Inr (0, 0) \<and>
   stress_tests_finished (fst (snd first_test)) \<and>
   queue (fst (snd second_test))
     = [Some (''first'', ''user'', []), Some (''later'', ''user'', []), Some (''later'', ''user'', []), None] \<and>
   queue (fst (snd second_test)) \<noteq> queue (TestSuite_init 3 1 1) \<and>
   consumer_thread (\<lambda>rs b. b @ rs) [] (fst (snd second_test))
     = Some ([(''first'', ''user'', []), (''later'', ''user'', []), (''later'', ''user'', [])],
             (fst (snd second_test))\<lparr>queue := []\<rparr>)"
proof -
  have r: "fst first_test = Inr (0, 0)"
    by (simp add: first_test_def run_stress_tests_def client_copy_def measure_time_def
        log_event_def Let_def small_suite_def TestSuite_init_def by_handle_def stub_def)
  have fl: "stress_tests_finished (fst (snd first_test))"
    by (simp add: first_test_def run_stress_tests_def client_copy_def measure_time_def
        log_event_def Let_def small_suite_def TestSuite_init_def by_handle_def stub_def)
  have q: "queue (fst (snd second_test))
     = [Some (''first'', ''user'', []), Some (''later'', ''user'', []), Some (''later'', ''user'', []), None]"
    by (simp add: second_test_def stress_keeps_queue after_first_queue)
  have n: "queue (fst (snd second_test)) \<noteq> queue (TestSuite_init 3 1 1)"
    by (simp add: q TestSuite_init_def)
  have c: "consumer_thread (\<lambda>rs b. b @ rs) [] (fst (snd second_test))
     = Some ([(''first'', ''user'', []), (''later'', ''user'', []), (''later'', ''user'', [])],
             (fst (snd second_test))\<lparr>queue := []\<rparr>)"
    by (simp add: consumer_thread_def consume_def q)
  from r fl q n c show ?thesis by (intro conjI)
qed

subsection \<open>One iteration of \<^verbatim>\<open>run\<close>\<close>

lemma point_reads_append [simp]: "point_reads (a @ b) = point_reads a @ point_reads b"
  by (induction a rule: point_reads.induct) simp_all

lemma plain_inserts_append [simp]: "plain_inserts (a @ b) = plain_inserts a @ plain_inserts b"
  by (induction a rule: plain_inserts.induct) simp_all

lemma reads_only_append: "reads_only f u a \<Longrightarrow> reads_only f u b \<Longrightarrow> reads_only f u (a @ b)"
  by (simp add: reads_only_def)

lemma reads_only_Nil: "reads_only f u []"
  by (simp add: reads_only_def)

lemma copies_reads_only: "reads_only f u (map (Copy c) cs)"
  by (induction cs) (simp_all add: reads_only_def)

lemma extends_refl: "extends f u w w"
  unfolding extends_def by (intro exI [of _ "[]"]) (simp add: reads_only_Nil)

lemma extends_trans: "extends f u w w1 \<Longrightarrow> extends f u w1 w2 \<Longrightarrow> extends f u w w2"
  unfolding extends_def
proof -
  assume "\<exists>evs. trace w1 = trace w @ evs \<and> reads_only f u evs"
    and "\<exists>evs. trace w2 = trace w1 @ evs \<and> reads_only f u evs"
  then obtain a b where "trace w1 = trace w @ a" "reads_only f u a"
    "trace w2 = trace w1 @ b" "reads_only f u b"
    by blast
  then have "trace w2 = trace w @ (a @ b) \<and> reads_only f u (a @ b)"
    by (simp add: reads_only_append)
  then show "\<exists>evs. trace w2 = trace w @ evs \<and> reads_only f u evs" by blast
qed

lemma static_extends:
  "extends f u w (snd (run_static_tests timer test_data c f u w))"
  unfolding extends_def
  by (auto simp: run_static_tests_def measure_time_def log_event_def Let_def reads_only_def
      split: sum.splits)

lemma stress_extends:
  "extends f u w (snd (snd (run_stress_tests timer test_data s c f u w)))"
  unfolding extends_def
  by (auto simp: run_stress_tests_def client_copy_def measure_time_def log_event_def Let_def
      reads_only_def split: sum.splits)

lemma pool_map_extends:
  assumes "\<And>c w. extends f u w (snd (m c w))"
  shows "extends f u w (snd (pool_map m cs w))"
proof (induction cs arbitrary: w)
  case Nil
  show ?case by (simp add: extends_refl)
next
  case (Cons c cs)
  obtain r w1 where a: "m c (log_event (Submit c) w) = (r, w1)"
    by (cases "m c (log_event (Submit c) w)")
  obtain rs w2 where b: "pool_map m cs w1 = (rs, w2)" by (cases "pool_map m cs w1")
  have "extends f u w (log_event (Submit c) w)"
    unfolding extends_def
    by (intro exI [of _ "[Submit c]"]) (simp add: log_event_def reads_only_def)
  moreover from assms [of "log_event (Submit c) w" c] a
  have "extends f u (log_event (Submit c) w) w1" by simp
  moreover from Cons.IH [of w1] b have "extends f u w1 w2" by simp
  ultimately have "extends f u w w2" by (blast intro: extends_trans)
  with a b show ?case by simp
qed

lemma fan_out_extends:
  assumes "\<And>c w. extends f u w (snd (m c w))"
  shows "extends f u w (snd (run_in_parallel c m N w))"
proof -
  obtain cs w1 where a: "copies c (nat N) w = (cs, w1)" by (cases "copies c (nat N) w")
  from copies_spec [OF a] have "trace w1 = trace w @ map (Copy c) cs" by simp
  then have e1: "extends f u w w1"
    unfolding extends_def using copies_reads_only by blast
  show ?thesis
  proof (cases "N \<le> 0")
    case True
    with a e1 show ?thesis by (simp add: run_in_parallel_def)
  next
    case False
    let ?w = "log_event (Pool (nat N)) w1"
    have "extends f u w1 ?w"
      unfolding extends_def
      by (intro exI [of _ "[Pool (nat N)]"]) (simp add: log_event_def reads_only_def)
    moreover have "extends f u ?w (snd (pool_map m cs ?w))"
      by (rule pool_map_extends) (rule assms)
    ultimately have "extends f u w (snd (pool_map m cs ?w))"
      using e1 by (blast intro: extends_trans)
    with False a show ?thesis
      by (cases "pool_map m cs ?w") (simp add: run_in_parallel_def)
  qed
qed

lemma last_timecode_extends:
  "extends f u w (snd (measure_retrieve_last_timecode timer f u c w))"
  unfolding extends_def
  by (intro exI [of _ "[Call c Connect, Measure c (RetrieveLastTimecode f u) (Some 100)]"])
     (simp add: measure_last_timecode_trace reads_only_def)

lemma most_viewed_extends:
  "extends f u w (snd (measure_retrieve_most_viewed timer c w))"
  unfolding extends_def
  by (intro exI [of _ "[Call c Connect, Measure c RetrieveMostViewed (Some 100)]"])
     (simp add: measure_most_viewed_trace reads_only_def)

lemma parallel_extends:
  "extends f u w (snd (run_parallel_read_tests timer s c f u w))"
proof -
  let ?m1 = "measure_retrieve_last_timecode timer f u"
  let ?m2 = "measure_retrieve_most_viewed timer"
  let ?N = "readers_count s"
  obtain o1 w1 where a: "run_in_parallel c ?m1 ?N w = (o1, w1)"
    by (cases "run_in_parallel c ?m1 ?N w")
  obtain o2 w2 where b: "run_in_parallel c ?m2 ?N w1 = (o2, w2)"
    by (cases "run_in_parallel c ?m2 ?N w1")
  have e1: "extends f u w w1"
    using fan_out_extends [of f u ?m1 w c ?N, OF last_timecode_extends] a by simp
  have e2: "extends f u w1 w2"
    using fan_out_extends [of f u ?m2 w1 c ?N, OF most_viewed_extends] b by simp
  from extends_trans [OF e1 e2] have e3: "extends f u w w2" .
  from a b e1 e3 show ?thesis
    by (auto simp: run_parallel_read_tests_def split: sum.splits)
qed

lemma run_client_extends:
  assumes "test_data (rows_count s) = first # rest"
  shows "extends (fst first) (fst (snd first)) (prepare_database c rest w)
           (snd (snd (run_client timer test_data s c w)))"
proof -
  let ?f = "fst first" and ?u = "fst (snd first)"
  let ?w1 = "prepare_database c rest w"
  obtain o1 w2 where a: "run_static_tests timer test_data c ?f ?u ?w1 = (o1, w2)"
    by (cases "run_static_tests timer test_data c ?f ?u ?w1")
  obtain o2 s2 w3 where b: "run_stress_tests timer test_data s c ?f ?u w2 = (o2, s2, w3)"
    by (cases "run_stress_tests timer test_data s c ?f ?u w2")
  obtain o3 w4 where d: "run_parallel_read_tests timer s2 c ?f ?u w3 = (o3, w4)"
    by (cases "run_parallel_read_tests timer s2 c ?f ?u w3")
  have e1: "extends ?f ?u ?w1 w2"
    using static_extends [of ?f ?u ?w1 timer test_data c] a by simp
  have "extends ?f ?u w2 w3"
    using stress_extends [of ?f ?u w2 timer test_data s c] b by simp
  with e1 have e2: "extends ?f ?u ?w1 w3" by (rule extends_trans)
  have "extends ?f ?u w3 w4"
    using parallel_extends [of ?f ?u w3 timer s2 c] d by simp
  with e2 have e3: "extends ?f ?u ?w1 w4" by (rule extends_trans)
  from assms a b d e1 e2 e3 show ?thesis
    by (auto simp: run_client_def Let_def split: sum.splits)
qed

lemma prepare_trace:
  "trace (prepare_database c rows w)
     = trace w @ [Call c Connect, Call c PrepareDatabase, Call c (InsertData rows), Sleep 1]"
  by (simp add: prepare_database_def log_event_def)

lemma numbered_3:
  "numbered 3 = [(''first'', ''user'', []), (''later'', ''user'', []), (''later'', ''user'', [])]"
  by (simp add: numbered_def upt_rec)

text \<open>
  C9. For a row count of at least one and a generator that yields as many rows as asked
  for, an iteration of \<^verbatim>\<open>run\<close> takes the first row off the initial dataset and
  begins with the preparation: connect, prepare, one bulk insert of the other
  \<open>rows_count - 1\<close> rows, a sleep of one second. That is its only insert outside a
  measurement, and every point read measured in the iteration, by the orchestrating
  thread or by a fan-out worker, is for the film and the user of the first row.
\<close>

theorem preparing_inserts_all_but_the_first_row:
  assumes "1 \<le> rows_count s" and "length (test_data (rows_count s)) = nat (rows_count s)"
  shows "\<exists>first rest new.
     test_data (rows_count s) = first # rest \<and>
     length rest = nat (rows_count s - 1) \<and>
     trace (snd (snd (run_client timer test_data s c w))) = trace w @ new \<and>
     take 4 new = [Call c Connect, Call c PrepareDatabase, Call c (InsertData rest), Sleep 1] \<and>
     plain_inserts new = [rest] \<and>
     (\<forall>p\<in>set (point_reads new). p = (fst first, fst (snd first)))"
proof -
  from assms obtain first rest where fr: "test_data (rows_count s) = first # rest"
    by (cases "test_data (rows_count s)") auto
  with assms have len: "length rest = nat (rows_count s - 1)" by auto
  let ?pre = "[Call c Connect, Call c PrepareDatabase, Call c (InsertData rest), Sleep 1]"
  from run_client_extends [where test_data = test_data and s = s and c = c and w = w
      and timer = timer, OF fr] obtain evs where
    t: "trace (snd (snd (run_client timer test_data s c w)))
          = trace (prepare_database c rest w) @ evs"
    and ro: "reads_only (fst first) (fst (snd first)) evs"
    unfolding extends_def by blast
  have a: "trace (snd (snd (run_client timer test_data s c w))) = trace w @ (?pre @ evs)"
    using t by (simp add: prepare_trace)
  have b: "take 4 (?pre @ evs) = ?pre" by simp
  have d: "plain_inserts (?pre @ evs) = [rest]"
    using ro by (simp add: reads_only_def)
  have e: "\<forall>p\<in>set (point_reads (?pre @ evs)). p = (fst first, fst (snd first))"
    using ro by (auto simp: reads_only_def)
  from fr len a b d e show ?thesis by blast
qed

theorem preparing_inserts_all_but_the_first_row_witness:
  "1 \<le> rows_count small_suite \<and>
   length (numbered (rows_count small_suite)) = nat (rows_count small_suite) \<and>
   numbered (rows_count small_suite)
     = [(''first'', ''user'', []), (''later'', ''user'', []), (''later'', ''user'', [])] \<and>
   (\<exists>first rest new.
     numbered (rows_count small_suite) = first # rest \<and>
     length rest = nat (rows_count small_suite - 1) \<and>
     trace (snd (snd (run_client by_handle numbered small_suite stub fresh))) = trace fresh @ new \<and>
     take 4 new = [Call stub Connect, Call stub PrepareDatabase, Call stub (InsertData rest), Sleep 1] \<and>
     plain_inserts new = [rest] \<and>
     (\<forall>p\<in>set (point_reads new). p = (fst first, fst (snd first))))"
proof -
  have rc: "rows_count small_suite = 3" by (simp add: small_suite_def TestSuite_init_def)
  have h1: "1 \<le> rows_count small_suite" by (simp add: rc)
  have h2: "length (numbered (rows_count small_suite)) = nat (rows_count small_suite)"
    by (simp add: numbered_def)
  have v: "numbered (rows_count small_suite)
     = [(''first'', ''user'', []), (''later'', ''user'', []), (''later'', ''user'', [])]"
    by (simp add: rc numbered_3)
  note spec = preparing_inserts_all_but_the_first_row
    [where s = small_suite and test_data = numbered and timer = by_handle and c = stub
       and w = fresh, OF h1 h2]
  from h1 h2 v spec show ?thesis by (intro conjI)
qed

subsection \<open>The parallel latencies of the result record\<close>

lemma stress_keeps_readers:
  "readers_count (fst (snd (run_stress_tests timer test_data s c f u w))) = readers_count s"
  by (simp add: run_stress_tests_def client_copy_def measure_time_def log_event_def Let_def
      split: sum.splits)

lemma parallel_means:
  assumes "run_parallel_read_tests timer s c f u w = (Inr (t1, t2), w')"
  shows "\<exists>r1 r2 w1.
         run_in_parallel c (measure_retrieve_last_timecode timer f u) (readers_count s) w
           = (Inr r1, w1) \<and>
         run_in_parallel c (measure_retrieve_most_viewed timer) (readers_count s) w1
           = (Inr r2, w') \<and>
         1 \<le> readers_count s \<and>
         length r1 = nat (readers_count s) \<and> length r2 = nat (readers_count s) \<and>
         t1 = sum_list r1 / real (length r1) \<and> t2 = sum_list r2 / real (length r2)"
proof -
  let ?N = "readers_count s"
  obtain o1 v1 where a: "run_in_parallel c (measure_retrieve_last_timecode timer f u) ?N w = (o1, v1)"
    by (cases "run_in_parallel c (measure_retrieve_last_timecode timer f u) ?N w")
  obtain o2 v2 where b: "run_in_parallel c (measure_retrieve_most_viewed timer) ?N v1 = (o2, v2)"
    by (cases "run_in_parallel c (measure_retrieve_most_viewed timer) ?N v1")
  from assms a obtain d1 where o1: "o1 = Inr d1"
    by (cases o1) (simp_all add: run_parallel_read_tests_def)
  from run_in_parallel_Inr [OF a [unfolded o1]] have N: "0 < ?N" "length d1 = nat ?N" by simp_all
  from assms a b o1 N obtain d2 where o2: "o2 = Inr d2"
    by (cases o2) (simp_all add: run_parallel_read_tests_def average_def)
  from run_in_parallel_Inr [OF b [unfolded o2]] have l2: "length d2 = nat ?N" by simp
  from assms a b o1 o2 N have res: "t1 = sum_list d1 / real_of_int ?N"
    "t2 = sum_list d2 / real_of_int ?N" "w' = v2"
    by (simp_all add: run_parallel_read_tests_def average_def)
  from N have cast: "real (nat ?N) = real_of_int ?N" by simp
  from a b o1 o2 N l2 res cast show ?thesis
    by (intro exI [of _ d1] exI [of _ d2] exI [of _ v1]) simp
qed

lemma run_client_Inr:
  assumes "run_client timer test_data s c w = (Inr r, s', w')"
  shows "\<exists>first rest t1 t2 t3 u1 u2 p1 p2 w2 w3.
     test_data (rows_count s) = first # rest \<and>
     run_static_tests timer test_data c (fst first) (fst (snd first)) (prepare_database c rest w)
       = (Inr (t1, t2, t3), w2) \<and>
     run_stress_tests timer test_data s c (fst first) (fst (snd first)) w2 = (Inr (u1, u2), s', w3) \<and>
     run_parallel_read_tests timer s' c (fst first) (fst (snd first)) w3 = (Inr (p1, p2), w') \<and>
     r = \<lparr>res_dbms_name = dbms_name c, insert_100k_rows = t1, retrieve_last_timecode = t2,
          retrieve_most_viewed = t3, retrieve_last_timecode_under_load = u1,
          retrieve_most_viewed_under_load = u2, retrieve_last_timecode_in_parallel = p1,
          retrieve_most_viewed_in_parallel = p2\<rparr>"
proof (cases "test_data (rows_count s)")
  case Nil
  with assms show ?thesis by (simp add: run_client_def)
next
  case (Cons first rest)
  let ?f = "fst first" and ?u = "fst (snd first)"
  obtain o1 w2 where a: "run_static_tests timer test_data c ?f ?u (prepare_database c rest w) = (o1, w2)"
    by (cases "run_static_tests timer test_data c ?f ?u (prepare_database c rest w)")
  obtain o2 s2 w3 where b: "run_stress_tests timer test_data s c ?f ?u w2 = (o2, s2, w3)"
    by (cases "run_stress_tests timer test_data s c ?f ?u w2")
  obtain o3 w4 where d: "run_parallel_read_tests timer s2 c ?f ?u w3 = (o3, w4)"
    by (cases "run_parallel_read_tests timer s2 c ?f ?u w3")
  from assms Cons a obtain t1 t2 t3 where o1: "o1 = Inr (t1, t2, t3)"
    by (cases o1) (auto simp: run_client_def Let_def)
  from assms Cons a b o1 obtain u1 u2 where o2: "o2 = Inr (u1, u2)"
    by (cases o2) (auto simp: run_client_def Let_def)
  from assms Cons a b d o1 o2 obtain p1 p2 where o3: "o3 = Inr (p1, p2)"
    by (cases o3) (auto simp: run_client_def Let_def)
  from assms Cons a b d o1 o2 o3 have
    "s' = s2" "w' = w4"
    "r = \<lparr>res_dbms_name = dbms_name c, insert_100k_rows = t1, retrieve_last_timecode = t2,
          retrieve_most_viewed = t3, retrieve_last_timecode_under_load = u1,
          retrieve_most_viewed_under_load = u2, retrieve_last_timecode_in_parallel = p1,
          retrieve_most_viewed_in_parallel = p2\<rparr>"
    by (simp_all add: run_client_def Let_def)
  with Cons a b d o1 o2 o3 show ?thesis by blast
qed

lemma sample_run:
  "fst (run_client by_handle numbered reading_suite stub fresh) = Inr sample_record"
  by (simp add: run_client_def numbered_3 prepare_database_def run_static_tests_def
      run_stress_tests_def run_parallel_read_tests_def average_def fan_simps
      reading_suite_def TestSuite_init_def stub_def fresh_def by_handle_def sample_record_def
      numeral_3_eq_3)

text \<open>
  C6. When the parallel read tests return, each of the two latencies is the sum of the
  durations its fan-out returned divided by their number, which is the reader count:
  their arithmetic mean. Conversely, when both fan-outs return their durations, the
  tests return the two means. Durations of 10, 20 and 30 ms give 20 ms. The record
  that an iteration of \<^verbatim>\<open>run\<close> yields reports these two means, of the point reads
  for the first row's film and user and of the aggregate reads, in its two parallel
  fields.
\<close>

theorem parallel_latency_is_mean:
  "(run_parallel_read_tests timer s c f u w = (Inr (t1, t2), w') \<longrightarrow>
      (\<exists>r1 r2 w1.
         run_in_parallel c (measure_retrieve_last_timecode timer f u) (readers_count s) w
           = (Inr r1, w1) \<and>
         run_in_parallel c (measure_retrieve_most_viewed timer) (readers_count s) w1
           = (Inr r2, w') \<and>
         1 \<le> readers_count s \<and>
         length r1 = nat (readers_count s) \<and> length r2 = nat (readers_count s) \<and>
         t1 = sum_list r1 / real (length r1) \<and> t2 = sum_list r2 / real (length r2))) \<and>
   (run_in_parallel c (measure_retrieve_last_timecode timer f u) (readers_count s) w
      = (Inr r1, w1) \<and>
    run_in_parallel c (measure_retrieve_most_viewed timer) (readers_count s) w1
      = (Inr r2, w2) \<longrightarrow>
    run_parallel_read_tests timer s c f u w
      = (Inr (sum_list r1 / real (length r1), sum_list r2 / real (length r2)), w2)) \<and>
   (run_client timer test_data s c w = (Inr result, s', w') \<longrightarrow>
      (\<exists>first rest d1 d2 w3 w4.
         test_data (rows_count s) = first # rest \<and>
         run_in_parallel c (measure_retrieve_last_timecode timer (fst first) (fst (snd first)))
           (readers_count s) w3 = (Inr d1, w4) \<and>
         run_in_parallel c (measure_retrieve_most_viewed timer) (readers_count s) w4
           = (Inr d2, w') \<and>
         1 \<le> readers_count s \<and>
         length d1 = nat (readers_count s) \<and> length d2 = nat (readers_count s) \<and>
         retrieve_last_timecode_in_parallel result = sum_list d1 / real (length d1) \<and>
         retrieve_most_viewed_in_parallel result = sum_list d2 / real (length d2)))"
proof (intro conjI impI)
  assume "run_parallel_read_tests timer s c f u w = (Inr (t1, t2), w')"
  then show "\<exists>r1 r2 w1.
         run_in_parallel c (measure_retrieve_last_timecode timer f u) (readers_count s) w
           = (Inr r1, w1) \<and>
         run_in_parallel c (measure_retrieve_most_viewed timer) (readers_count s) w1
           = (Inr r2, w') \<and>
         1 \<le> readers_count s \<and>
         length r1 = nat (readers_count s) \<and> length r2 = nat (readers_count s) \<and>
         t1 = sum_list r1 / real (length r1) \<and> t2 = sum_list r2 / real (length r2)"
    by (rule parallel_means)
next
  let ?N = "readers_count s"
  assume both: "run_in_parallel c (measure_retrieve_last_timecode timer f u) ?N w = (Inr r1, w1) \<and>
    run_in_parallel c (measure_retrieve_most_viewed timer) ?N w1 = (Inr r2, w2)"
  then have a: "run_in_parallel c (measure_retrieve_last_timecode timer f u) ?N w = (Inr r1, w1)"
    and b: "run_in_parallel c (measure_retrieve_most_viewed timer) ?N w1 = (Inr r2, w2)"
    by simp_all
  from run_in_parallel_Inr [OF a] have N: "0 < ?N" "length r1 = nat ?N" by simp_all
  from run_in_parallel_Inr [OF b] have l2: "length r2 = nat ?N" by simp
  from N have cast: "real (nat ?N) = real_of_int ?N" by simp
  from a b N l2 cast
  show "run_parallel_read_tests timer s c f u w
      = (Inr (sum_list r1 / real (length r1), sum_list r2 / real (length r2)), w2)"
    by (simp add: run_parallel_read_tests_def average_def)
next
  assume run: "run_client timer test_data s c w = (Inr result, s', w')"
  from run_client_Inr [OF run] obtain first rest t1 t2 t3 u1 u2 p1 p2 v2 v3 where
    fr: "test_data (rows_count s) = first # rest"
    and st: "run_stress_tests timer test_data s c (fst first) (fst (snd first)) v2
               = (Inr (u1, u2), s', v3)"
    and pa: "run_parallel_read_tests timer s' c (fst first) (fst (snd first)) v3
               = (Inr (p1, p2), w')"
    and res: "result = \<lparr>res_dbms_name = dbms_name c, insert_100k_rows = t1,
          retrieve_last_timecode = t2, retrieve_most_viewed = t3,
          retrieve_last_timecode_under_load = u1, retrieve_most_viewed_under_load = u2,
          retrieve_last_timecode_in_parallel = p1, retrieve_most_viewed_in_parallel = p2\<rparr>"
    by blast
  from stress_keeps_readers [of timer test_data s c "fst first" "fst (snd first)" v2] st
  have rd: "readers_count s' = readers_count s" by simp
  from parallel_means [OF pa] rd obtain d1 d2 v4 where
    d: "run_in_parallel c (measure_retrieve_last_timecode timer (fst first) (fst (snd first)))
          (readers_count s) v3 = (Inr d1, v4)"
       "run_in_parallel c (measure_retrieve_most_viewed timer) (readers_count s) v4 = (Inr d2, w')"
       "1 \<le> readers_count s"
       "length d1 = nat (readers_count s)" "length d2 = nat (readers_count s)"
       "p1 = sum_list d1 / real (length d1)" "p2 = sum_list d2 / real (length d2)"
    by auto
  from res d(6,7) have
    "retrieve_last_timecode_in_parallel result = sum_list d1 / real (length d1)"
    "retrieve_most_viewed_in_parallel result = sum_list d2 / real (length d2)"
    by simp_all
  with fr d(1-5)
  show "\<exists>first rest d1 d2 w3 w4.
         test_data (rows_count s) = first # rest \<and>
         run_in_parallel c (measure_retrieve_last_timecode timer (fst first) (fst (snd first)))
           (readers_count s) w3 = (Inr d1, w4) \<and>
         run_in_parallel c (measure_retrieve_most_viewed timer) (readers_count s) w4
           = (Inr d2, w') \<and>
         1 \<le> readers_count s \<and>
         length d1 = nat (readers_count s) \<and> length d2 = nat (readers_count s) \<and>
         retrieve_last_timecode_in_parallel result = sum_list d1 / real (length d1) \<and>
         retrieve_most_viewed_in_parallel result = sum_list d2 / real (length d2)"
    by blast
qed

theorem parallel_latency_is_mean_witness:
  "fst (run_parallel_read_tests by_handle sample_suite stub ''film'' ''user'' fresh)
     = Inr (sum_list [1 / 100, 2 / 100, 3 / 100] / real (length [1 / 100, 2 / 100, 3 / 100 :: real]),
            sum_list [4 / 100, 5 / 100, 6 / 100] / real (length [4 / 100, 5 / 100, 6 / 100 :: real])) \<and>
   sum_list [1 / 100, 2 / 100, 3 / 100] / real (length [1 / 100, 2 / 100, 3 / 100 :: real])
     = (2 / 100 :: real) \<and>
   fst (run_client by_handle numbered reading_suite stub fresh) = Inr sample_record \<and>
   retrieve_last_timecode_in_parallel sample_record
     = sum_list [2 / 100, 3 / 100, 4 / 100] / real (length [2 / 100, 3 / 100, 4 / 100 :: real]) \<and>
   retrieve_most_viewed_in_parallel sample_record
     = sum_list [5 / 100, 6 / 100, 7 / 100] / real (length [5 / 100, 6 / 100, 7 / 100 :: real]) \<and>
   (\<exists>first rest d1 d2 w3 w4.
      numbered (rows_count reading_suite) = first # rest \<and>
      run_in_parallel stub (measure_retrieve_last_timecode by_handle (fst first) (fst (snd first)))
        (readers_count reading_suite) w3 = (Inr d1, w4) \<and>
      run_in_parallel stub (measure_retrieve_most_viewed by_handle) (readers_count reading_suite) w4
        = (Inr d2, snd (snd (run_client by_handle numbered reading_suite stub fresh))) \<and>
      1 \<le> readers_count reading_suite \<and>
      length d1 = nat (readers_count reading_suite) \<and>
      length d2 = nat (readers_count reading_suite) \<and>
      retrieve_last_timecode_in_parallel sample_record = sum_list d1 / real (length d1) \<and>
      retrieve_most_viewed_in_parallel sample_record = sum_list d2 / real (length d2))"
proof -
  let ?m1 = "measure_retrieve_last_timecode by_handle ''film'' ''user''"
  let ?m2 = "measure_retrieve_most_viewed by_handle"
  let ?w1 = "snd (run_in_parallel stub ?m1 (readers_count sample_suite) fresh)"
  let ?w2 = "snd (run_in_parallel stub ?m2 (readers_count sample_suite) ?w1)"
  have a: "run_in_parallel stub ?m1 (readers_count sample_suite) fresh
             = (Inr [1 / 100, 2 / 100, 3 / 100], ?w1)"
    by (simp add: prod_eq_iff)
       (simp add: fan_simps stub_def fresh_def by_handle_def sample_suite_def TestSuite_init_def
          eval_nat_numeral)
  have b: "run_in_parallel stub ?m2 (readers_count sample_suite) ?w1
             = (Inr [4 / 100, 5 / 100, 6 / 100], ?w2)"
    by (simp add: prod_eq_iff)
       (simp add: fan_simps stub_def fresh_def by_handle_def sample_suite_def TestSuite_init_def
          eval_nat_numeral)
  note spec = parallel_latency_is_mean
    [THEN conjunct2, THEN conjunct1, rule_format, OF conjI [OF a b]]
  have c: "sum_list [1 / 100, 2 / 100, 3 / 100] / real (length [1 / 100, 2 / 100, 3 / 100 :: real])
     = (2 / 100 :: real)"
    by simp
  from spec have p: "fst (run_parallel_read_tests by_handle sample_suite stub ''film'' ''user'' fresh)
     = Inr (sum_list [1 / 100, 2 / 100, 3 / 100] / real (length [1 / 100, 2 / 100, 3 / 100 :: real]),
            sum_list [4 / 100, 5 / 100, 6 / 100] / real (length [4 / 100, 5 / 100, 6 / 100 :: real]))"
    by simp
  have run: "run_client by_handle numbered reading_suite stub fresh
      = (Inr sample_record, fst (snd (run_client by_handle numbered reading_suite stub fresh)),
         snd (snd (run_client by_handle numbered reading_suite stub fresh)))"
    by (simp add: prod_eq_iff sample_run)
  have r: "fst (run_client by_handle numbered reading_suite stub fresh) = Inr sample_record"
    by (rule sample_run)
  have m1: "retrieve_last_timecode_in_parallel sample_record
     = sum_list [2 / 100, 3 / 100, 4 / 100] / real (length [2 / 100, 3 / 100, 4 / 100 :: real])"
    by (simp add: sample_record_def)
  have m2: "retrieve_most_viewed_in_parallel sample_record
     = sum_list [5 / 100, 6 / 100, 7 / 100] / real (length [5 / 100, 6 / 100, 7 / 100 :: real])"
    by (simp add: sample_record_def)
  note rec = parallel_latency_is_mean
    [where test_data = numbered, THEN conjunct2, THEN conjunct2, rule_format, OF run]
  from p c r m1 m2 rec show ?thesis by (intro conjI)
qed

subsection \<open>The consumer\<close>

lemma iter_queue_returns: "(iter_queue q \<noteq> None) = (None \<in> set q)"
proof (induction q)
  case Nil
  show ?case by simp
next
  case (Cons v q)
  show ?case
  proof (cases v)
    case None
    then show ?thesis by simp
  next
    case (Some r)
    with Cons show ?thesis by (auto split: option.splits)
  qed
qed

lemma iter_queue_split:
  "iter_queue q = Some (rs, q') \<Longrightarrow> q = map Some rs @ None # q'"
proof (induction q arbitrary: rs)
  case Nil
  then show ?case by simp
next
  case (Cons v q)
  show ?case
  proof (cases v)
    case None
    with Cons.prems show ?thesis by simp
  next
    case (Some r)
    with Cons.prems obtain rs0 where a: "iter_queue q = Some (rs0, q')" and b: "rs = r # rs0"
      by (auto split: option.splits)
    from Cons.IH [OF a] b Some show ?thesis by simp
  qed
qed

text \<open>
  C2. The drain loop returns exactly when a sentinel is on the queue. When it returns,
  the values it has read are the rows it forwarded, in order, followed by one sentinel:
  it read one sentinel, forwarded every row before it to the bulk write and nothing
  after it, and what followed the sentinel is still on the queue, without the sentinel.
\<close>

theorem consumer_returns_iff_sentinel:
  "((\<exists>b q'. consume insert_data backend q = Some (b, q')) = (None \<in> set q)) \<and>
   (\<forall>b q'. consume insert_data backend q = Some (b, q') \<longrightarrow>
      (\<exists>rs. q = map Some rs @ None # q' \<and> b = insert_data rs backend))"
proof (intro conjI allI impI)
  show "(\<exists>b q'. consume insert_data backend q = Some (b, q')) = (None \<in> set q)"
    using iter_queue_returns [of q]
    by (auto simp: consume_def split: option.splits)
next
  fix b q'
  assume "consume insert_data backend q = Some (b, q')"
  then obtain rs where a: "iter_queue q = Some (rs, q')" and b: "b = insert_data rs backend"
    by (auto simp: consume_def split: option.splits)
  from iter_queue_split [OF a] b
  show "\<exists>rs. q = map Some rs @ None # q' \<and> b = insert_data rs backend" by blast
qed

theorem consumer_returns_iff_sentinel_witness:
  "consume (\<lambda>rs b. b @ rs) []
     [Some (''f1'', ''u1'', []), Some (''f2'', ''u2'', []), None, Some (''f3'', ''u3'', [])]
   = Some ([(''f1'', ''u1'', []), (''f2'', ''u2'', [])], [Some (''f3'', ''u3'', [])])
   \<and> (\<exists>rs. ([Some (''f1'', ''u1'', []), Some (''f2'', ''u2'', []), None,
           Some (''f3'', ''u3'', [])] :: shared_queue)
          = map Some rs @ None # [Some (''f3'', ''u3'', [])]
        \<and> [(''f1'', ''u1'', []), (''f2'', ''u2'', [])] = [] @ rs)"
proof -
  have run: "consume (\<lambda>rs b. b @ rs) []
     [Some (''f1'', ''u1'', []), Some (''f2'', ''u2'', []), None, Some (''f3'', ''u3'', [])]
   = Some ([(''f1'', ''u1'', []), (''f2'', ''u2'', [])], [Some (''f3'', ''u3'', [])])"
    by (simp add: consume_def)
  note spec = consumer_returns_iff_sentinel
    [of "\<lambda>rs b. b @ rs" "[]"
        "[Some (''f1'', ''u1'', []), Some (''f2'', ''u2'', []), None, Some (''f3'', ''u3'', [])]",
     THEN conjunct2, rule_format, OF run]
  show ?thesis by (rule conjI [OF run spec])
qed

end
